theory Spec2Isabelle
  imports Main "HOL-Library.AList" "HOL-Library.Multiset"
begin

section \<open>Strings and paths\<close>

text \<open>
  Go strings are byte sequences; they are modelled as \<^typ>\<open>string\<close>. The helpers below
  stand for the functions of Go's \<^verbatim>\<open>strings\<close>, \<^verbatim>\<open>fmt\<close> and \<^verbatim>\<open>path/filepath\<close>
  packages that the embedded code calls. Paths use the separator \<^verbatim>\<open>/\<close>.
\<close>

definition HasPrefix :: "string \<Rightarrow> string \<Rightarrow> bool" where
  "HasPrefix s pre = (take (length pre) s = pre)"

definition HasSuffix :: "string \<Rightarrow> string \<Rightarrow> bool" where
  "HasSuffix s suf = (length suf \<le> length s \<and> drop (length s - length suf) s = suf)"

definition TrimSuffix :: "string \<Rightarrow> string \<Rightarrow> string" where
  "TrimSuffix s suf = (if HasSuffix s suf then take (length s - length suf) s else s)"

text \<open>\<^verbatim>\<open>strings.Split(s, "/")\<close>: the pieces between separators; one piece for a string without one.\<close>

fun Split :: "string \<Rightarrow> string list" where
  "Split [] = [[]]"
| "Split (c # cs) =
     (if c = CHR ''/'' then [] # Split cs
      else (case Split cs of [] \<Rightarrow> [[c]] | w # ws \<Rightarrow> (c # w) # ws))"

text \<open>The verb \<^verbatim>\<open>%d\<close> of \<^verbatim>\<open>fmt.Sprintf\<close>.\<close>

definition digit_char :: "nat \<Rightarrow> char" where
  "digit_char n = ''0123456789'' ! (n mod 10)"

fun dec_nat :: "nat \<Rightarrow> string" where
  "dec_nat n = (if n < 10 then [digit_char n] else dec_nat (n div 10) @ [digit_char (n mod 10)])"

declare dec_nat.simps [simp del]

definition dec_int :: "int \<Rightarrow> string" where
  "dec_int i = (if i < 0 then CHR ''-'' # dec_nat (nat (- i)) else dec_nat (nat i))"

text \<open>
  \<^verbatim>\<open>filepath.Ext\<close>: the suffix from the last dot of the last path element, empty when that
  element has no dot. The scan runs over the reversed path and stops at a separator.
\<close>

fun ext_scan :: "string \<Rightarrow> string \<Rightarrow> string" where
  "ext_scan [] acc = []"
| "ext_scan (c # cs) acc =
     (if c = CHR ''/'' then []
      else if c = CHR ''.'' then c # acc
      else ext_scan cs (c # acc))"

definition Ext :: "string \<Rightarrow> string" where
  "Ext path = ext_scan (rev path) []"

text \<open>
  \<^verbatim>\<open>filepath.Base\<close>: the last element of the path, after trailing separators are removed;
  \<^verbatim>\<open>.\<close> for the empty path and \<^verbatim>\<open>/\<close> for a path of separators only.
\<close>

definition Base :: "string \<Rightarrow> string" where
  "Base path =
     (if path = [] then ''.''
      else let p = rev (dropWhile (\<lambda>c. c = CHR ''/'') (rev path))
           in if p = [] then ''/''
              else rev (takeWhile (\<lambda>c. c \<noteq> CHR ''/'') (rev p)))"

text \<open>
  \<^verbatim>\<open>filepath.Clean\<close> reads the path element by element. Empty elements and \<^verbatim>\<open>.\<close> are
  dropped; \<^verbatim>\<open>..\<close> removes the element before it when there is one that is not itself
  \<^verbatim>\<open>..\<close>, is dropped at the start of a rooted path, and is kept at the start of a
  path that is not rooted. The elements that remain are joined by single separators,
  after the leading separator of a rooted path; the empty result becomes \<^verbatim>\<open>.\<close>.
\<close>

definition clean_step :: "bool \<Rightarrow> string \<Rightarrow> string list \<Rightarrow> string list" where
  "clean_step rooted elem out =
     (if elem = [] \<or> elem = ''.'' then out
      else if elem = ''..'' then
        (if out \<noteq> [] \<and> last out \<noteq> ''..'' then butlast out
         else if \<not> rooted then out @ [''..'']
         else out)
      else out @ [elem])"

fun join_elems :: "string list \<Rightarrow> string" where
  "join_elems [] = []"
| "join_elems [e] = e"
| "join_elems (e # f # es) = e @ ''/'' @ join_elems (f # es)"

definition Clean :: "string \<Rightarrow> string" where
  "Clean path =
     (let rooted = HasPrefix path ''/'';
          out = fold (clean_step rooted) (Split path) [];
          cleaned = (if rooted then ''/'' else []) @ join_elems out
      in if cleaned = [] then ''.'' else cleaned)"

text \<open>\<^verbatim>\<open>filepath.Dir\<close>: the path up to its last separator, cleaned.\<close>

definition Dir :: "string \<Rightarrow> string" where
  "Dir path = Clean (rev (dropWhile (\<lambda>c. c \<noteq> CHR ''/'') (rev path)))"

text \<open>
  \<^verbatim>\<open>filepath.Join\<close> of two elements: the elements from the first one that is not empty
  are joined by separators, and the result is cleaned; two empty elements give the empty
  path.
\<close>

definition Join :: "string \<Rightarrow> string \<Rightarrow> string" where
  "Join dir elem =
     (if dir \<noteq> [] then Clean (dir @ ''/'' @ elem)
      else if elem \<noteq> [] then Clean elem
      else [])"

text \<open>
  \<^verbatim>\<open>filepath.Rel(basepath, targpath)\<close> cleans both paths and compares them element by
  element. The result is \<^verbatim>\<open>.\<close> for equal paths; otherwise one \<^verbatim>\<open>..\<close> for every element
  of the base after the common elements, followed by the elements of the target after
  them. There is no result (the function returns an error) when only one of the paths
  is rooted, and when the base continues with \<^verbatim>\<open>..\<close> after the common elements, where
  the working directory would have to be known.
\<close>

definition path_elems :: "string \<Rightarrow> string list" where
  "path_elems p = (if p = [] then [] else if p = ''/'' then [[]] else Split p)"

fun strip_common :: "string list \<Rightarrow> string list \<Rightarrow> string list \<times> string list" where
  "strip_common (b # bs) (t # ts) = (if b = t then strip_common bs ts else (b # bs, t # ts))"
| "strip_common [] ts = ([], ts)"
| "strip_common bs [] = (bs, [])"

definition Rel :: "string \<Rightarrow> string \<Rightarrow> string option" where
  "Rel basepath targpath =
     (let base = Clean basepath; targ = Clean targpath
      in if targ = base then Some ''.''
         else (let base = (if base = ''.'' then [] else base)
               in if HasPrefix base ''/'' \<noteq> HasPrefix targ ''/'' then None
                  else (case strip_common (path_elems base) (path_elems targ) of
                          (bs, ts) \<Rightarrow>
                            if bs \<noteq> [] \<and> hd bs = ''..'' then None
                            else Some (join_elems (replicate (length bs) ''..'' @ ts)))))"

section \<open>Go maps\<close>

text \<open>
  A Go map is an association list with distinct keys; \<^const>\<open>None\<close> is the nil map where
  the distinction from an empty map matters. Reading a missing key gives the zero value.
\<close>

type_synonym ('k, 'v) gomap = "('k \<times> 'v) list"

definition index_bool :: "('k, bool) gomap option \<Rightarrow> 'k \<Rightarrow> bool" where
  "index_bool m k =
     (case m of None \<Rightarrow> False
      | Some al \<Rightarrow> (case map_of al k of None \<Rightarrow> False | Some b \<Rightarrow> b))"

text \<open>\<^verbatim>\<open>m[k] = append(m[k], v)\<close> for a map of slices.\<close>

definition append_at :: "'k \<Rightarrow> 'v \<Rightarrow> ('k, 'v list) gomap \<Rightarrow> ('k, 'v list) gomap" where
  "append_at k v m =
     AList.update k ((case map_of m k of None \<Rightarrow> [] | Some g \<Rightarrow> g) @ [v]) m"

section \<open>The photo record\<close>

text \<open>
  \<^verbatim>\<open>models.Photo\<close>. The field \<^verbatim>\<open>Meta\<close> (descriptive metadata, with floating-point
  coordinates) is read and written by none of the functions embedded here and is left out.
  \<^verbatim>\<open>Size\<close> is an \<^verbatim>\<open>int64\<close> that holds file sizes and is never computed with.
\<close>

record Photo =
  Hash :: string
  HashError :: bool
  SrcPath :: string
  JsonPath :: string
  Albums :: "(string, bool) gomap option"
  FinalAlbum :: string
  DateAccuracy :: int
  Size :: int

section \<open>Album assignment\<close>

text \<open>
  \<^verbatim>\<open>albums.AssignFinalAlbums\<close>. The slice holds pointers; a nil pointer is \<^const>\<open>None\<close> and
  is skipped. The records are updated in place, so the model returns the slice after the
  call. Printing and the progress callback change no record.
\<close>

fun first_selected :: "string list \<Rightarrow> Photo \<Rightarrow> Photo" where
  "first_selected [] p = p"
| "first_selected (name # rest) p =
     (if index_bool (Albums p) name then p\<lparr>FinalAlbum := name\<rparr>
      else first_selected rest p)"

definition assign_one :: "string list \<Rightarrow> Photo \<Rightarrow> Photo" where
  "assign_one selected p =
     (let p0 = p\<lparr>FinalAlbum := []\<rparr>
      in if Albums p0 = None \<or> length selected = 0 then p0
         else first_selected selected p0)"

definition AssignFinalAlbums :: "Photo option list \<Rightarrow> string list \<Rightarrow> Photo option list" where
  "AssignFinalAlbums photos selected = map (map_option (assign_one selected)) photos"

section \<open>Time values\<close>

text \<open>
  A \<^verbatim>\<open>time.Time\<close> is an instant (seconds since the Unix epoch and nanoseconds within the
  second) together with the offset east of UTC that its location has at that instant.
  \<^verbatim>\<open>Before\<close> and \<^verbatim>\<open>IsZero\<close> look at the instant only; \<^verbatim>\<open>Year\<close> is the calendar year
  of the instant in the location. The zero value is 1 January of year 1, 00:00 UTC.
\<close>

record Time =
  unix_sec :: int
  nsec :: int
  zone_offset :: int

definition zeroTime :: Time where
  "zeroTime = \<lparr>unix_sec = - 62135596800, nsec = 0, zone_offset = 0\<rparr>"

definition Before :: "Time \<Rightarrow> Time \<Rightarrow> bool" where
  "Before t u = (unix_sec t < unix_sec u \<or> (unix_sec t = unix_sec u \<and> nsec t < nsec u))"

definition IsZero :: "Time \<Rightarrow> bool" where
  "IsZero t = (unix_sec t = - 62135596800 \<and> nsec t = 0)"

text \<open>
  The year of a day counted from 1 January of year 1 (day 0), in the proleptic Gregorian
  calendar: cycles of 400 years (146097 days), then of 100 years, of 4 years and of one
  year, the last century of a 400-year cycle and the last year of a 4-year cycle being
  one day longer.
\<close>

definition civil_year :: "int \<Rightarrow> int" where
  "civil_year d =
     (let n400 = d div 146097; d1 = d mod 146097;
          n100 = d1 div 36524; n100' = n100 - n100 div 4; d2 = d1 - 36524 * n100';
          n4 = d2 div 1461; d3 = d2 mod 1461;
          n1 = d3 div 365; n1' = n1 - n1 div 4
      in 400 * n400 + 100 * n100' + 4 * n4 + n1' + 1)"

definition Year :: "Time \<Rightarrow> int" where
  "Year t = civil_year ((unix_sec t + zone_offset t + 62135596800) div 86400)"

text \<open>
  Zone offsets are shorter than a day, for the zones of the time-zone database as for the
  numeric zones that \<^verbatim>\<open>time.Parse\<close> accepts.
\<close>

definition zone_ok :: "Time \<Rightarrow> bool" where
  "zone_ok t = (- 86400 < zone_offset t \<and> zone_offset t < 86400)"

section \<open>Date resolution\<close>

definition DateAccuracyJSON :: int where "DateAccuracyJSON = 1"
definition DateAccuracyFilename :: int where "DateAccuracyFilename = 2"
definition DateAccuracyExif :: int where "DateAccuracyExif = 3"
definition DateAccuracyNone :: int where "DateAccuracyNone = 99"

text \<open>
  A \<^verbatim>\<open>datePattern\<close> pairs a compiled regular expression with a parser. The expression is
  represented by its \<^verbatim>\<open>FindStringSubmatch\<close>: the leftmost match followed by its capture
  groups, the empty list when nothing matches. \<^verbatim>\<open>FindString\<close> is the head of that list.
\<close>

record datePattern =
  re :: "string \<Rightarrow> string list"
  parse :: "string \<Rightarrow> Time \<times> bool"

record CustomPattern =
  Regex :: string
  Layout :: string

definition FindString :: "datePattern \<Rightarrow> string \<Rightarrow> string" where
  "FindString pat s = (case re pat s of [] \<Rightarrow> [] | m # _ \<Rightarrow> m)"

text \<open>
  What the metadata package takes from outside: the built-in pattern table (its entries
  are regular expressions and layout parsers of the Go library), \<^verbatim>\<open>regexp.Compile\<close>, the
  layout parser behind \<^verbatim>\<open>parseLayout\<close>, the sidecar and embedded-tag readers (file and
  subprocess access), and the clock.
\<close>

record metadata_env =
  datePatterns :: "datePattern list"
  regexp_Compile :: "string \<Rightarrow> (string \<Rightarrow> string list) option"
  ParseWithLayout :: "string \<Rightarrow> string \<Rightarrow> Time \<times> bool"
  ParseJSONTakenTime :: "string \<Rightarrow> Time \<times> bool"
  ParseExifTakenTime :: "string \<Rightarrow> Time \<times> bool"
  Now :: Time

fun guess_loop :: "datePattern list \<Rightarrow> string \<Rightarrow> Time \<times> bool" where
  "guess_loop [] base = (zeroTime, False)"
| "guess_loop (pat # pats) base =
     (let match = FindString pat base
      in if match = [] then guess_loop pats base
         else (case parse pat match of
                 (t, ok) \<Rightarrow> if ok then (t, True) else guess_loop pats base))"

definition GuessDateFromFilename :: "metadata_env \<Rightarrow> string \<Rightarrow> Time \<times> bool" where
  "GuessDateFromFilename env path = guess_loop (datePatterns env) (Base path)"

fun guessWith_loop :: "datePattern list \<Rightarrow> string \<Rightarrow> Time \<times> bool" where
  "guessWith_loop [] base = (zeroTime, False)"
| "guessWith_loop (pat # pats) base =
     (let sub = re pat base
      in if length sub = 0 then guessWith_loop pats base
         else (let target = (if length sub > 1 then sub ! 1 else sub ! 0)
               in case parse pat target of
                    (t, ok) \<Rightarrow> if ok then (t, True) else guessWith_loop pats base))"

definition guessWithPatterns :: "string \<Rightarrow> datePattern list \<Rightarrow> Time \<times> bool" where
  "guessWithPatterns path patterns =
     (if length patterns = 0 then (zeroTime, False)
      else guessWith_loop patterns (Base path))"

fun build_loop :: "metadata_env \<Rightarrow> CustomPattern list \<Rightarrow> datePattern list" where
  "build_loop env [] = []"
| "build_loop env (c # cs) =
     (if Regex c = [] \<or> Layout c = [] then build_loop env cs
      else (case regexp_Compile env (Regex c) of
              None \<Rightarrow> build_loop env cs
            | Some r \<Rightarrow> \<lparr>re = r, parse = ParseWithLayout env (Layout c)\<rparr> # build_loop env cs))"

definition buildCustomPatterns :: "metadata_env \<Rightarrow> CustomPattern list \<Rightarrow> datePattern list" where
  "buildCustomPatterns env custom = (if length custom = 0 then [] else build_loop env custom)"

definition map_len :: "('k, 'v) gomap option \<Rightarrow> nat" where
  "map_len m = (case m of None \<Rightarrow> 0 | Some al \<Rightarrow> length al)"

definition isExcluded :: "string \<Rightarrow> (string, bool) gomap option \<Rightarrow> bool" where
  "isExcluded path exclude =
     (if map_len exclude = 0 then False
      else index_bool exclude (Base path))"

definition GuessDateFromFilenameWithCustomAndExclusions ::
  "metadata_env \<Rightarrow> string \<Rightarrow> CustomPattern list \<Rightarrow> (string, bool) gomap option \<Rightarrow> Time \<times> bool"
where
  "GuessDateFromFilenameWithCustomAndExclusions env path custom exclude =
     (if isExcluded path exclude then (zeroTime, False)
      else (case guessWithPatterns path (buildCustomPatterns env custom) of
              (t, ok) \<Rightarrow>
                if ok then (t, True)
                else if isExcluded path exclude then (zeroTime, False)
                else GuessDateFromFilename env path))"

definition isReasonable :: "metadata_env \<Rightarrow> Time \<Rightarrow> bool" where
  "isReasonable env t =
     (if IsZero t then False
      else (let year = Year t; now = Now env
            in if year < 1990 then False
               else if year > Year now + 1 then False
               else True))"

definition shouldOverrideJSON :: "metadata_env \<Rightarrow> Time \<Rightarrow> Time \<Rightarrow> bool" where
  "shouldOverrideJSON env jsonTime fileTime =
     (if \<not> Before fileTime jsonTime then False
      else if \<not> isReasonable env fileTime then False
      else True)"

text \<open>The results are the tuples that the Go functions return, in their order.\<close>

definition ExtractBestDate :: "metadata_env \<Rightarrow> string \<Rightarrow> string \<Rightarrow> Time \<times> int \<times> bool" where
  "ExtractBestDate env srcPath jsonPath =
     (case ParseJSONTakenTime env jsonPath of (jsonTime, hasJSON) \<Rightarrow>
      case GuessDateFromFilename env srcPath of (fileTime, hasFile) \<Rightarrow>
      case ParseExifTakenTime env srcPath of (exifTime, hasExif) \<Rightarrow>
        if hasJSON \<and> hasFile then
          (if shouldOverrideJSON env jsonTime fileTime
           then (fileTime, DateAccuracyFilename, True)
           else (jsonTime, DateAccuracyJSON, True))
        else if hasJSON then (jsonTime, DateAccuracyJSON, True)
        else if hasFile then (fileTime, DateAccuracyFilename, True)
        else if hasExif then (exifTime, DateAccuracyExif, True)
        else (zeroTime, DateAccuracyNone, False))"

definition ExtractBestDateWithCustomAndExclusions ::
  "metadata_env \<Rightarrow> string \<Rightarrow> Time \<Rightarrow> bool \<Rightarrow> CustomPattern list \<Rightarrow>
   (string, bool) gomap option \<Rightarrow> Time \<times> int \<times> bool \<times> Time \<times> bool"
where
  "ExtractBestDateWithCustomAndExclusions env srcPath jsonTime hasJSON custom exclude =
     (case GuessDateFromFilenameWithCustomAndExclusions env srcPath custom exclude of
        (fileTime, hasFile) \<Rightarrow>
        if hasJSON \<and> hasFile then
          (if shouldOverrideJSON env jsonTime fileTime
           then (fileTime, DateAccuracyFilename, True, zeroTime, False)
           else (jsonTime, DateAccuracyJSON, True, zeroTime, False))
        else if hasJSON then (jsonTime, DateAccuracyJSON, True, zeroTime, False)
        else if hasFile then (fileTime, DateAccuracyFilename, True, zeroTime, False)
        else (case ParseExifTakenTime env srcPath of
                (exifTime, hasExif) \<Rightarrow>
                  if hasExif then (exifTime, DateAccuracyExif, True, exifTime, hasExif)
                  else (zeroTime, DateAccuracyNone, False, exifTime, hasExif)))"

text \<open>
  The precedence rule in the words of the specification: with a sidecar and a file-name
  timestamp, the file name wins exactly when it is strictly earlier and its year lies
  between 1990 and the year after the current one; a single source is taken in the order
  sidecar, file name, embedded tag; without any source there is no timestamp and the tier
  is unknown.
\<close>

definition spec_best_date ::
  "Time \<Rightarrow> Time \<times> bool \<Rightarrow> Time \<times> bool \<Rightarrow> Time \<times> bool \<Rightarrow> Time \<times> int \<times> bool"
where
  "spec_best_date now json file exif =
     (if snd json \<and> snd file then
        (if Before (fst file) (fst json) \<and> 1990 \<le> Year (fst file) \<and> Year (fst file) \<le> Year now + 1
         then (fst file, DateAccuracyFilename, True)
         else (fst json, DateAccuracyJSON, True))
      else if snd json then (fst json, DateAccuracyJSON, True)
      else if snd file then (fst file, DateAccuracyFilename, True)
      else if snd exif then (fst exif, DateAccuracyExif, True)
      else (zeroTime, DateAccuracyNone, False))"

text \<open>
  The order of the patterns, pattern by pattern. The date that one custom pattern gives
  for a base name: none when its regular expression or its layout is empty, when the
  expression does not compile or does not match, and when the layout does not parse the
  first capture group (the whole match for an expression without groups).
  \<open>first_date\<close> is the first date of a list of attempts.
\<close>

definition custom_date :: "metadata_env \<Rightarrow> string \<Rightarrow> CustomPattern \<Rightarrow> Time option" where
  "custom_date env base c =
     (if Regex c = [] \<or> Layout c = [] then None
      else (case regexp_Compile env (Regex c) of
              None \<Rightarrow> None
            | Some r \<Rightarrow>
                (case r base of
                   [] \<Rightarrow> None
                 | m # groups \<Rightarrow>
                     (case ParseWithLayout env (Layout c) (case groups of [] \<Rightarrow> m | g # _ \<Rightarrow> g) of
                        (t, ok) \<Rightarrow> if ok then Some t else None))))"

fun first_date :: "Time option list \<Rightarrow> Time option" where
  "first_date [] = None"
| "first_date (None # attempts) = first_date attempts"
| "first_date (Some t # attempts) = Some t"

section \<open>Collision-free destination paths\<close>

text \<open>
  \<^verbatim>\<open>uniquePath\<close> of the output package. The destination tree is seen through \<^verbatim>\<open>os.Stat\<close>,
  of which only the error is used: \<^const>\<open>None\<close> when the path exists, the not-exist error
  when it is free, any other error when the path cannot be examined.
\<close>

datatype os_error = ErrNotExist | ErrOther string

type_synonym stat = "string \<Rightarrow> os_error option"

definition IsNotExist :: "os_error option \<Rightarrow> bool" where
  "IsNotExist err = (err = Some ErrNotExist)"

datatype path_error = StatError os_error | TooManyCollisions string

function suffix_loop :: "stat \<Rightarrow> string \<Rightarrow> string \<Rightarrow> string \<Rightarrow> string \<Rightarrow> nat \<Rightarrow> path_error + string" where
  "suffix_loop Stat dir filename name ext i =
     (if i < 10000 then
        (let path = Join dir (name @ ''-'' @ dec_nat i @ ext); err = Stat path
         in if IsNotExist err then Inr path
            else if err \<noteq> None then Inl (StatError (the err))
            else suffix_loop Stat dir filename name ext (i + 1))
      else Inl (TooManyCollisions filename))"
  by pat_completeness auto
termination
  by (relation "measure (\<lambda>(Stat, dir, filename, name, ext, i). 10000 - i)") auto

declare suffix_loop.simps [simp del]

definition uniquePath :: "stat \<Rightarrow> string \<Rightarrow> string \<Rightarrow> string \<Rightarrow> path_error + string" where
  "uniquePath Stat dir filename hash =
     (let path = Join dir filename; err = Stat path
      in if IsNotExist err then Inr path
         else if err \<noteq> None then Inl (StatError (the err))
         else
           (let ext = Ext filename;
                name = TrimSuffix filename ext;
                hashPart = (if hash \<noteq> [] then (if length hash > 8 then take 8 hash else hash) else [])
            in if hashPart \<noteq> [] then
                 (let path = Join dir (name @ ''-'' @ hashPart @ ext); err = Stat path
                  in if IsNotExist err then Inr path
                     else if err \<noteq> None then Inl (StatError (the err))
                     else suffix_loop Stat dir filename name ext 1)
               else suffix_loop Stat dir filename name ext 1))"

text \<open>The candidate names, as the specification lists them.\<close>

definition hash_path :: "string \<Rightarrow> string \<Rightarrow> string \<Rightarrow> string" where
  "hash_path dir filename hash =
     Join dir (TrimSuffix filename (Ext filename) @ ''-'' @ take 8 hash @ Ext filename)"

definition numbered_path :: "string \<Rightarrow> string \<Rightarrow> nat \<Rightarrow> string" where
  "numbered_path dir filename i =
     Join dir (TrimSuffix filename (Ext filename) @ ''-'' @ dec_nat i @ Ext filename)"

text \<open>The destination tree after a file has been written at \<open>path\<close>.\<close>

definition written :: "stat \<Rightarrow> string \<Rightarrow> stat" where
  "written Stat path = Stat(path := None)"

section \<open>Hash cache and registry build\<close>

text \<open>
  Writing to a nil map and indexing a slice out of range panic in Go; a panic is a result
  of its own. Reading a nil map gives the zero value, as for a missing key.
\<close>

datatype panic = NilMapAssignment | IndexOutOfRange

definition map_lookup :: "('k, 'v) gomap option \<Rightarrow> 'k \<Rightarrow> 'v option" where
  "map_lookup m k = (case m of None \<Rightarrow> None | Some al \<Rightarrow> map_of al k)"

definition map_store :: "'k \<Rightarrow> 'v \<Rightarrow> ('k, 'v) gomap option \<Rightarrow> panic + ('k, 'v) gomap option" where
  "map_store k v m =
     (case m of None \<Rightarrow> Inl NilMapAssignment | Some al \<Rightarrow> Inr (Some (AList.update k v al)))"

record FilePair =
  MediaPath :: string
  pair_JsonPath :: string
  Album :: string

record hashCacheEntry =
  entry_Size :: int
  entry_MtimeNs :: int
  entry_Hash :: string

record hashCache =
  Files :: "(string, hashCacheEntry) gomap option"

text \<open>
  What the dedup package takes from outside: \<^verbatim>\<open>os.ReadFile\<close>, \<^verbatim>\<open>json.Unmarshal\<close> into a
  \<^verbatim>\<open>hashCache\<close> (\<^const>\<open>None\<close> for malformed input; the decoded \<^verbatim>\<open>Files\<close> is nil when the
  document has no such member), \<^verbatim>\<open>os.Stat\<close> (size and modification time in nanoseconds,
  \<^const>\<open>None\<close> on error), the digest of a file's content by \<^verbatim>\<open>HashFile\<close> (\<^const>\<open>None\<close> when the
  file cannot be read), the order in which \<^verbatim>\<open>range\<close> visits the entries of a map, which
  Go leaves open (the two \<open>range\<close> functions give the visiting order of a map with sizes as
  keys and of one with strings as keys), and what \<^verbatim>\<open>sort.Slice\<close> does to a slice of more than
  twelve elements (shorter slices are sorted by insertion, which is modelled below).
\<close>

record dedup_env =
  ReadFile :: "string \<Rightarrow> os_error + string"
  Unmarshal :: "string \<Rightarrow> hashCache option"
  StatFile :: "string \<Rightarrow> (int \<times> int) option"
  HashFile :: "string \<Rightarrow> string option"
  range_sizes :: "(int, Photo list) gomap \<Rightarrow> (int, Photo list) gomap"
  range_groups :: "(string, Photo list) gomap \<Rightarrow> (string, Photo list) gomap"
  sort_long :: "(Photo \<Rightarrow> Photo \<Rightarrow> bool) \<Rightarrow> Photo list \<Rightarrow> Photo list"

datatype load_error = ReadFailed os_error | BadJSON

definition LoadHashCache :: "dedup_env \<Rightarrow> string \<Rightarrow> hashCache \<times> load_error option" where
  "LoadHashCache env path =
     (if path = [] then (\<lparr>Files = Some []\<rparr>, None)
      else (case ReadFile env path of
              Inl err \<Rightarrow>
                if IsNotExist (Some err) then (\<lparr>Files = Some []\<rparr>, None)
                else (\<lparr>Files = None\<rparr>, Some (ReadFailed err))
            | Inr data \<Rightarrow>
                (case Unmarshal env data of
                   None \<Rightarrow> (\<lparr>Files = None\<rparr>, Some BadJSON)
                 | Some c \<Rightarrow> (if Files c = None then c\<lparr>Files := Some []\<rparr> else c, None))))"

type_synonym registry = "(string, Photo) gomap"

text \<open>
  One round of the loop of \<^verbatim>\<open>BuildRegistry\<close>, in the order of the source: the cache is
  consulted, the file is hashed when the cache has no valid entry, a fresh hash is recorded
  in the cache, and the file is folded into the registry. The registry maps keys to
  pointers, so the updated record replaces the one stored under the key.
\<close>

definition consult_cache :: "hashCache \<Rightarrow> string \<Rightarrow> int \<Rightarrow> int \<Rightarrow> string" where
  "consult_cache cache path fsize mtime =
     (case map_lookup (Files cache) path of
        None \<Rightarrow> []
      | Some entry \<Rightarrow>
          if entry_Size entry = fsize \<and> entry_MtimeNs entry = mtime \<and> entry_Hash entry \<noteq> []
          then entry_Hash entry else [])"

text \<open>The hash and whether \<^verbatim>\<open>hashErr\<close> is set.\<close>

definition hash_media :: "dedup_env \<Rightarrow> string \<Rightarrow> string \<Rightarrow> string \<times> bool" where
  "hash_media env path hash =
     (if hash = [] then
        (case HashFile env path of None \<Rightarrow> ([], True) | Some h \<Rightarrow> (h, False))
      else (hash, False))"

definition record_hash ::
  "hashCache \<Rightarrow> string \<Rightarrow> int \<Rightarrow> int \<Rightarrow> string \<Rightarrow> bool \<Rightarrow>
   panic + (string, hashCacheEntry) gomap option"
where
  "record_hash cache path fsize mtime hash hashErr =
     (if hashErr then Inr (Files cache)
      else if hash \<noteq> [] then
        map_store path \<lparr>entry_Size = fsize, entry_MtimeNs = mtime, entry_Hash = hash\<rparr> (Files cache)
      else Inr (Files cache))"

definition fold_in ::
  "registry \<Rightarrow> string \<Rightarrow> string \<Rightarrow> bool \<Rightarrow> FilePair \<Rightarrow> int \<Rightarrow> panic + registry"
where
  "fold_in registry key hash hashError p fsize =
     (let photo =
            (case map_of registry key of
               Some existing \<Rightarrow> existing
             | None \<Rightarrow>
                 \<lparr>Hash = hash, HashError = hashError, SrcPath = MediaPath p,
                  JsonPath = pair_JsonPath p, Albums = Some [], FinalAlbum = [],
                  DateAccuracy = 0, Size = 0\<rparr>);
          labelled =
            (if Album p \<noteq> [] then map_store (Album p) True (Albums photo)
             else Inr (Albums photo))
      in case labelled of
           Inl pan \<Rightarrow> Inl pan
         | Inr albums \<Rightarrow> Inr (AList.update key (photo\<lparr>Albums := albums, Size := fsize\<rparr>) registry))"

definition registry_step ::
  "dedup_env \<Rightarrow> FilePair \<Rightarrow> registry \<times> hashCache \<Rightarrow> panic + (registry \<times> hashCache)"
where
  "registry_step env p st =
     (case st of (registry, cache) \<Rightarrow>
      case StatFile env (MediaPath p) of
        None \<Rightarrow> Inr (registry, cache)
      | Some (fsize, mtime) \<Rightarrow>
          (case hash_media env (MediaPath p) (consult_cache cache (MediaPath p) fsize mtime) of
             (hashed, hashErr) \<Rightarrow>
               (let key = (if hashErr then ''nohash:'' @ MediaPath p else hashed);
                    hash = (if hashErr then [] else hashed);
                    hashError = hashErr
                in case record_hash cache (MediaPath p) fsize mtime hash hashErr of
                     Inl pan \<Rightarrow> Inl pan
                   | Inr files \<Rightarrow>
                       (case fold_in registry key hash hashError p fsize of
                          Inl pan \<Rightarrow> Inl pan
                        | Inr registry' \<Rightarrow> Inr (registry', cache\<lparr>Files := files\<rparr>)))))"

fun registry_loop ::
  "dedup_env \<Rightarrow> FilePair list \<Rightarrow> registry \<times> hashCache \<Rightarrow> panic + (registry \<times> hashCache)"
where
  "registry_loop env [] st = Inr st"
| "registry_loop env (p # ps) st =
     (case registry_step env p st of
        Inl pan \<Rightarrow> Inl pan
      | Inr st' \<Rightarrow> registry_loop env ps st')"

text \<open>
  \<^verbatim>\<open>BuildRegistry\<close> drops the error of \<^verbatim>\<open>LoadHashCache\<close> and keeps the cache value. The
  result is the registry together with the cache that is handed to \<^verbatim>\<open>SaveHashCache\<close>.
\<close>

definition BuildRegistry ::
  "dedup_env \<Rightarrow> FilePair list \<Rightarrow> string \<Rightarrow> panic + (registry \<times> hashCache)"
where
  "BuildRegistry env pairs cachePath =
     (let cache = fst (LoadHashCache env cachePath)
      in registry_loop env pairs ([], cache))"

text \<open>
  Two facts hold of every registry that the loop builds: the records have an album map
  that is not nil, and a record flagged as hash-failed has an empty hash.
\<close>

definition registry_ok :: "registry \<Rightarrow> bool" where
  "registry_ok registry =
     (\<forall>(key, photo) \<in> set registry. Albums photo \<noteq> None \<and> (HashError photo \<longrightarrow> Hash photo = []))"

section \<open>Scanner: album inference and prefix matching of sidecars\<close>

text \<open>
  \<^verbatim>\<open>detectAlbum\<close>. The error of \<^verbatim>\<open>filepath.Rel\<close> is dropped, as in the source: the
  relative path is then the empty string.
\<close>

definition detectAlbum :: "string \<Rightarrow> string \<Rightarrow> string" where
  "detectAlbum root path =
     (let rel = (case Rel root path of None \<Rightarrow> [] | Some r \<Rightarrow> r);
          parts = Split rel
      in if length parts > 1 then
           (if parts ! 0 = ''Google Photos'' \<and> length parts > 2 then
              (if \<not> HasPrefix (parts ! 1) ''Photos from'' then parts ! 1 else [])
            else if \<not> HasPrefix (parts ! 0) ''Photos from'' then parts ! 0
            else [])
         else [])"

record jsonTitleEntry =
  Title :: string
  Path :: string

text \<open>
  \<^verbatim>\<open>strings.ToLower\<close> maps the letters of a string to lower case by the Unicode tables
  of the Go library. The tables are not part of the embedding: the function is taken
  from outside, and nothing is assumed of it.
\<close>

record scanner_env =
  ToLower :: "string \<Rightarrow> string"

text \<open>\<^verbatim>\<open>stripExt\<close>.\<close>

definition stripExt :: "string \<Rightarrow> string" where
  "stripExt path = (let ext = Ext path in if ext = [] then path else TrimSuffix path ext)"

text \<open>
  The loop of \<^verbatim>\<open>pickPrefixCandidate\<close> over the sidecars of the directory; its state is the
  pair of \<^verbatim>\<open>best\<close> and \<^verbatim>\<open>bestLen\<close>.
\<close>

fun prefix_loop :: "scanner_env \<Rightarrow> string \<Rightarrow> string \<Rightarrow> jsonTitleEntry list \<Rightarrow> string \<times> nat \<Rightarrow> string \<times> nat" where
  "prefix_loop env ext baseNoExt [] st = st"
| "prefix_loop env ext baseNoExt (entry # entries) st =
     (let title = ToLower env (Title entry)
      in if ext = [] then prefix_loop env ext baseNoExt entries st
         else if \<not> HasSuffix title ext then prefix_loop env ext baseNoExt entries st
         else (let titleBase = TrimSuffix title ext
               in if \<not> HasPrefix titleBase baseNoExt then prefix_loop env ext baseNoExt entries st
                  else if fst st = [] \<or> length titleBase < snd st
                    then prefix_loop env ext baseNoExt entries (Path entry, length titleBase)
                  else prefix_loop env ext baseNoExt entries st))"

text \<open>Reading a map of slices: a missing key gives the nil slice.\<close>

definition index_slice :: "('k, 'v list) gomap \<Rightarrow> 'k \<Rightarrow> 'v list" where
  "index_slice m k = (case map_of m k of None \<Rightarrow> [] | Some vs \<Rightarrow> vs)"

definition pickPrefixCandidate :: "scanner_env \<Rightarrow> string \<Rightarrow> (string, jsonTitleEntry list) gomap \<Rightarrow> string" where
  "pickPrefixCandidate env mediaPath jsonByDir =
     (let dir = Dir mediaPath;
          entries = index_slice jsonByDir dir
      in if length entries = 0 then []
         else (let base = Base mediaPath;
                   baseNoExt = stripExt base;
                   ext = ToLower env (Ext base);
                   baseNoExt = ToLower env baseNoExt
               in fst (prefix_loop env ext baseNoExt entries ([], 0))))"

text \<open>
  The sidecars that the loop takes into account, for a media file with lower-cased
  extension \<open>ext\<close> and lower-cased base name \<open>baseNoExt\<close>: the title ends with the
  extension, and the base name of the media file is a prefix of the rest of the title.
  \<open>title_base\<close> is that rest.
\<close>

definition title_base :: "scanner_env \<Rightarrow> string \<Rightarrow> jsonTitleEntry \<Rightarrow> string" where
  "title_base env ext entry = TrimSuffix (ToLower env (Title entry)) ext"

definition qualifies :: "scanner_env \<Rightarrow> string \<Rightarrow> string \<Rightarrow> jsonTitleEntry \<Rightarrow> bool" where
  "qualifies env ext baseNoExt entry =
     (ext \<noteq> [] \<and> HasSuffix (ToLower env (Title entry)) ext \<and> HasPrefix (title_base env ext entry) baseNoExt)"

text \<open>
  The relation in the words of the specification: the title ends with the extension, and
  the sidecar's name without the extension is a prefix of the base name of the media file.
\<close>

definition spec_qualifies :: "scanner_env \<Rightarrow> string \<Rightarrow> string \<Rightarrow> jsonTitleEntry \<Rightarrow> bool" where
  "spec_qualifies env ext baseNoExt entry =
     (ext \<noteq> [] \<and> HasSuffix (ToLower env (Title entry)) ext \<and> HasPrefix baseNoExt (title_base env ext entry))"

text \<open>The values that \<^const>\<open>pickPrefixCandidate\<close> derives from the media path.\<close>

definition media_ext :: "scanner_env \<Rightarrow> string \<Rightarrow> string" where
  "media_ext env mediaPath = ToLower env (Ext (Base mediaPath))"

definition media_stem :: "scanner_env \<Rightarrow> string \<Rightarrow> string" where
  "media_stem env mediaPath = ToLower env (stripExt (Base mediaPath))"

definition same_dir_entries :: "string \<Rightarrow> (string, jsonTitleEntry list) gomap \<Rightarrow> jsonTitleEntry list" where
  "same_dir_entries mediaPath jsonByDir = index_slice jsonByDir (Dir mediaPath)"

definition candidates :: "scanner_env \<Rightarrow> string \<Rightarrow> (string, jsonTitleEntry list) gomap \<Rightarrow> jsonTitleEntry list" where
  "candidates env mediaPath jsonByDir =
     filter (qualifies env (media_ext env mediaPath) (media_stem env mediaPath))
       (same_dir_entries mediaPath jsonByDir)"

text \<open>
  The state of the loop after the entries \<open>seen\<close>: nothing yet when none of them
  qualified, and otherwise the path and title length of a qualifying entry whose title is
  the shortest.
\<close>

definition best_of :: "scanner_env \<Rightarrow> string \<Rightarrow> string \<Rightarrow> jsonTitleEntry list \<Rightarrow> string \<times> nat \<Rightarrow> bool" where
  "best_of env ext baseNoExt seen st =
     ((filter (qualifies env ext baseNoExt) seen = [] \<longrightarrow> st = ([], 0)) \<and>
      (filter (qualifies env ext baseNoExt) seen \<noteq> [] \<longrightarrow>
         (\<exists>e \<in> set (filter (qualifies env ext baseNoExt) seen).
            st = (Path e, length (title_base env ext e)) \<and>
            (\<forall>e' \<in> set (filter (qualifies env ext baseNoExt) seen).
               length (title_base env ext e) \<le> length (title_base env ext e')))))"

section \<open>Grouping and merging of identical photos\<close>

text \<open>
  \<^verbatim>\<open>GroupIdentical\<close>. The slice holds pointers to distinct records; a record that the
  function changes (\<^verbatim>\<open>Hash\<close>, \<^verbatim>\<open>HashError\<close>) enters its group in the changed state. The keys
  are built by \<^verbatim>\<open>fmt.Sprintf\<close>.
\<close>

definition bytes_key :: "int \<Rightarrow> string" where
  "bytes_key sz = dec_int sz @ ''bytes''"

definition nohash_key :: "int \<Rightarrow> string \<Rightarrow> string" where
  "nohash_key sz path = ''nohash:'' @ dec_int sz @ '':'' @ path"

definition size_groups :: "Photo list \<Rightarrow> (int, Photo list) gomap" where
  "size_groups photos = fold (\<lambda>p. append_at (Size p) p) photos []"

definition hash_step :: "dedup_env \<Rightarrow> int \<Rightarrow> Photo \<Rightarrow> (string, Photo list) gomap \<Rightarrow> (string, Photo list) gomap" where
  "hash_step env sz p hashGroups =
     (if HashError p then append_at (nohash_key sz (SrcPath p)) p hashGroups
      else if Hash p = [] then
        (case HashFile env (SrcPath p) of
           None \<Rightarrow> append_at (nohash_key sz (SrcPath p)) (p\<lparr>HashError := True\<rparr>) hashGroups
         | Some h \<Rightarrow> append_at h (p\<lparr>Hash := h\<rparr>) hashGroups)
      else append_at (Hash p) p hashGroups)"

definition hash_groups :: "dedup_env \<Rightarrow> int \<Rightarrow> Photo list \<Rightarrow> (string, Photo list) gomap" where
  "hash_groups env sz grp = fold (hash_step env sz) grp []"

definition size_step ::
  "dedup_env \<Rightarrow> int \<times> Photo list \<Rightarrow> (string, Photo list) gomap \<Rightarrow> (string, Photo list) gomap"
where
  "size_step env entry finalGroups =
     (case entry of (sz, grp) \<Rightarrow>
        if length grp = 1 then AList.update (bytes_key sz) grp finalGroups
        else fold (\<lambda>(hash, g). AList.update hash g)
               (range_groups env (hash_groups env sz grp)) finalGroups)"

definition GroupIdentical :: "dedup_env \<Rightarrow> Photo list \<Rightarrow> (string, Photo list) gomap" where
  "GroupIdentical env photos =
     fold (size_step env) (range_sizes env (size_groups photos)) []"

text \<open>
  The comparison that \<^verbatim>\<open>chooseBest\<close> hands to \<^verbatim>\<open>sort.Slice\<close>, on the two records rather
  than on their indices.
\<close>

definition less_photo :: "Photo \<Rightarrow> Photo \<Rightarrow> bool" where
  "less_photo a b =
     (if DateAccuracy a < DateAccuracy b then DateAccuracy a < DateAccuracy b
      else length (SrcPath a) < length (SrcPath b))"

text \<open>
  \<^verbatim>\<open>sort.Slice\<close> sorts a slice of at most twelve elements by insertion: each element in
  turn is swapped with its left neighbour as long as it is less than that neighbour.
  \<open>sift\<close> does this for one element; the sorted part is held in reverse, nearest
  neighbour first.
\<close>

fun sift :: "('a \<Rightarrow> 'a \<Rightarrow> bool) \<Rightarrow> 'a \<Rightarrow> 'a list \<Rightarrow> 'a list" where
  "sift lt x [] = [x]"
| "sift lt x (y # ys) = (if lt x y then y # sift lt x ys else x # y # ys)"

definition insertion_sort :: "('a \<Rightarrow> 'a \<Rightarrow> bool) \<Rightarrow> 'a list \<Rightarrow> 'a list" where
  "insertion_sort lt xs = rev (fold (sift lt) xs [])"

definition sort_Slice :: "dedup_env \<Rightarrow> (Photo \<Rightarrow> Photo \<Rightarrow> bool) \<Rightarrow> Photo list \<Rightarrow> Photo list" where
  "sort_Slice env lt grp =
     (if length grp \<le> 12 then insertion_sort lt grp else sort_long env lt grp)"

text \<open>\<^verbatim>\<open>chooseBest\<close> sorts the group in place and returns its first element.\<close>

definition chooseBest :: "dedup_env \<Rightarrow> Photo list \<Rightarrow> panic + (Photo \<times> Photo list)" where
  "chooseBest env grp =
     (case sort_Slice env less_photo grp of
        [] \<Rightarrow> Inl IndexOutOfRange
      | best # others \<Rightarrow> Inr (best, best # others))"

text \<open>The inner loops of \<^verbatim>\<open>MergeIdentical\<close>: every key of the albums of \<open>p\<close> is set in \<open>albums\<close>.\<close>

definition album_keys :: "Photo \<Rightarrow> string list" where
  "album_keys p = (case Albums p of None \<Rightarrow> [] | Some al \<Rightarrow> map fst al)"

definition add_albums :: "Photo \<Rightarrow> (string, bool) gomap \<Rightarrow> (string, bool) gomap" where
  "add_albums p albums = fold (\<lambda>album. AList.update album True) (album_keys p) albums"

text \<open>
  The body of the loop of \<^verbatim>\<open>MergeIdentical\<close> for one group. \<^verbatim>\<open>best\<close> points to the first
  element of the sorted group, so when the loop over the group starts, that element
  already carries the fresh, empty album map.
\<close>

definition merge_group :: "dedup_env \<Rightarrow> Photo list \<Rightarrow> panic + Photo" where
  "merge_group env grp =
     (if length grp = 1 then Inr (grp ! 0)
      else (case chooseBest env grp of
              Inl pan \<Rightarrow> Inl pan
            | Inr (best, ordered) \<Rightarrow>
                (let fresh = best\<lparr>Albums := Some []\<rparr>;
                     aliased = fresh # tl ordered;
                     albums = fold add_albums aliased []
                 in Inr (best\<lparr>Albums := Some albums\<rparr>))))"

fun merge_loop :: "dedup_env \<Rightarrow> (string, Photo list) gomap \<Rightarrow> Photo list \<Rightarrow> panic + Photo list" where
  "merge_loop env [] result = Inr result"
| "merge_loop env (entry # entries) result =
     (case merge_group env (snd entry) of
        Inl pan \<Rightarrow> Inl pan
      | Inr best \<Rightarrow> merge_loop env entries (result @ [best]))"

definition MergeIdentical :: "dedup_env \<Rightarrow> Photo list \<Rightarrow> panic + Photo list" where
  "MergeIdentical env photos =
     (let grouped = GroupIdentical env photos
      in merge_loop env (range_groups env grouped) [])"








section \<open>Example data\<close>

text \<open>
  A file named after its capture time (19 September 2019, 05:38:57 UTC) whose sidecar
  carries 1 January 2020, read on 30 October 2026. The one built-in pattern of this
  environment recognises the file name.
\<close>

definition t_2019 :: Time where
  "t_2019 = \<lparr>unix_sec = 1568871537, nsec = 0, zone_offset = 0\<rparr>"

definition t_2020 :: Time where
  "t_2020 = \<lparr>unix_sec = 1577836800, nsec = 0, zone_offset = 0\<rparr>"

definition t_now :: Time where
  "t_now = \<lparr>unix_sec = 1793361600, nsec = 0, zone_offset = 0\<rparr>"

definition img_pattern :: datePattern where
  "img_pattern =
     \<lparr>re = (\<lambda>s. if s = ''IMG_20190919_053857.jpg'' then [''20190919_053857''] else []),
      parse = (\<lambda>s. if s = ''20190919_053857'' then (t_2019, True) else (zeroTime, False))\<rparr>"

definition example_env :: metadata_env where
  "example_env =
     \<lparr>datePatterns = [img_pattern],
      regexp_Compile = (\<lambda>r. None),
      ParseWithLayout = (\<lambda>layout v. (zeroTime, False)),
      ParseJSONTakenTime =
        (\<lambda>p. if p = ''/t/Trip/IMG_20190919_053857.jpg.json'' then (t_2020, True)
             else (zeroTime, False)),
      ParseExifTakenTime = (\<lambda>p. (zeroTime, False)),
      Now = t_now\<rparr>"

text \<open>
  Custom patterns for the same file: one whose expression does not compile, one without
  a layout, and one that reads the day from the digits after \<^verbatim>\<open>IMG_\<close>, which is
  19 September 2019, 00:00:00, in the local time zone; the local time zone of the
  examples is UTC. \<open>img_day_re\<close> is \<^verbatim>\<open>FindStringSubmatch\<close> for the expression
  \<^verbatim>\<open>^IMG_([0-9]{8})\<close>.
\<close>

definition t_day :: Time where
  "t_day = \<lparr>unix_sec = 1568851200, nsec = 0, zone_offset = 0\<rparr>"

definition img_day_re :: "string \<Rightarrow> string list" where
  "img_day_re s =
     (if HasPrefix s ''IMG_'' \<and> 12 \<le> length s \<and>
         list_all (\<lambda>c. c \<in> set ''0123456789'') (take 8 (drop 4 s))
      then [take 12 s, take 8 (drop 4 s)] else [])"

definition unbalanced :: CustomPattern where
  "unbalanced = \<lparr>Regex = ''IMG_('', Layout = ''20060102''\<rparr>"

definition no_layout :: CustomPattern where
  "no_layout = \<lparr>Regex = ''^IMG_([0-9]{8})'', Layout = []\<rparr>"

definition img_day :: CustomPattern where
  "img_day = \<lparr>Regex = ''^IMG_([0-9]{8})'', Layout = ''20060102''\<rparr>"

definition custom_env :: metadata_env where
  "custom_env =
     example_env
       \<lparr>regexp_Compile := (\<lambda>r. if r = ''^IMG_([0-9]{8})'' then Some img_day_re else None),
        ParseWithLayout :=
          (\<lambda>layout v. if layout = ''20060102'' \<and> v = ''20190919'' then (t_day, True)
                      else (zeroTime, False))\<rparr>"

text \<open>A photo that was exported under the albums Trip and Beach.\<close>

definition trip_beach_photo :: Photo where
  "trip_beach_photo =
     \<lparr>Hash = ''9f86d081884c7d65'', HashError = False, SrcPath = ''/t/Trip/a.jpg'',
      JsonPath = '''', Albums = Some [(''Trip'', True), (''Beach'', True)],
      FinalAlbum = ''stale'', DateAccuracy = 0, Size = 5\<rparr>"

text \<open>Destination trees: an empty one, one with a single file, and one where every path exists.\<close>

definition empty_tree :: stat where
  "empty_tree = (\<lambda>path. Some ErrNotExist)"

definition one_file_tree :: stat where
  "one_file_tree = written empty_tree ''out/Library/a.jpg''"

definition two_file_tree :: stat where
  "two_file_tree = written one_file_tree ''out/Library/a-01234567.jpg''"

definition full_tree :: stat where
  "full_tree = (\<lambda>path. None)"

text \<open>
  One media file of five bytes under the album Trip, and three states of the cache file:
  missing, present but unreadable, present with content that is not JSON.
\<close>

definition pair_a :: FilePair where
  "pair_a = \<lparr>MediaPath = ''/t/Trip/a.jpg'', pair_JsonPath = '''', Album = ''Trip''\<rparr>"

definition env_cache_absent :: dedup_env where
  "env_cache_absent =
     \<lparr>ReadFile = (\<lambda>path. Inl ErrNotExist),
      Unmarshal = (\<lambda>data. None),
      StatFile = (\<lambda>path. if path = ''/t/Trip/a.jpg'' then Some (5, 1568871537000000000) else None),
      HashFile = (\<lambda>path. if path = ''/t/Trip/a.jpg'' then Some ''9f86d081884c7d65'' else None),
      range_sizes = (\<lambda>m. m),
      range_groups = (\<lambda>m. m),
      sort_long = (\<lambda>lt grp. grp)\<rparr>"

definition env_cache_unreadable :: dedup_env where
  "env_cache_unreadable = env_cache_absent\<lparr>ReadFile := (\<lambda>path. Inl (ErrOther ''permission denied''))\<rparr>"

definition env_cache_corrupt :: dedup_env where
  "env_cache_corrupt = env_cache_absent\<lparr>ReadFile := (\<lambda>path. Inr ''not json'')\<rparr>"

text \<open>The same file when it cannot be hashed, and the record that the registry keeps for it.\<close>

definition env_hash_fails :: dedup_env where
  "env_hash_fails = env_cache_absent\<lparr>HashFile := (\<lambda>path. None)\<rparr>"

definition failed_photo :: Photo where
  "failed_photo =
     \<lparr>Hash = [], HashError = True, SrcPath = ''/t/Trip/a.jpg'', JsonPath = [],
      Albums = Some [(''Trip'', True)], FinalAlbum = [], DateAccuracy = 0, Size = 5\<rparr>"

text \<open>
  On a string of ASCII characters \<^verbatim>\<open>strings.ToLower\<close> replaces the letters \<^verbatim>\<open>A\<close> to \<^verbatim>\<open>Z\<close>
  by \<^verbatim>\<open>a\<close> to \<^verbatim>\<open>z\<close> and keeps the other characters. The examples below are such strings.
\<close>

definition lower_char :: "char \<Rightarrow> char" where
  "lower_char c =
     (case map_of (zip ''ABCDEFGHIJKLMNOPQRSTUVWXYZ'' ''abcdefghijklmnopqrstuvwxyz'') c of
        None \<Rightarrow> c
      | Some l \<Rightarrow> l)"

definition ascii_env :: scanner_env where
  "ascii_env = \<lparr>ToLower = map lower_char\<rparr>"

text \<open>Sidecars next to media files whose names were cut or extended by the export.\<close>

definition entry_img_12 :: jsonTitleEntry where
  "entry_img_12 = \<lparr>Title = ''IMG_12.jpg'', Path = ''/t/Trip/IMG_12.jpg.json''\<rparr>"

definition entry_img_12345 :: jsonTitleEntry where
  "entry_img_12345 = \<lparr>Title = ''IMG_12345.jpg'', Path = ''/t/Trip/IMG_12345.jpg.json''\<rparr>"

definition entry_img_1234 :: jsonTitleEntry where
  "entry_img_1234 = \<lparr>Title = ''IMG_1234.JPG'', Path = ''/t/Trip/IMG_1234.jpg.json''\<rparr>"

definition trip_sidecars :: "(string, jsonTitleEntry list) gomap" where
  "trip_sidecars = [(''/t/Trip'', [entry_img_12345, entry_img_1234])]"

text \<open>
  Two copies of one content: one under the album Trip whose date came from its sidecar,
  and one with a shorter path under the album Beach whose date is unknown.
\<close>

definition dup_dated :: Photo where
  "dup_dated =
     \<lparr>Hash = ''9f86d081884c7d65'', HashError = False, SrcPath = ''/t/Trip/IMG_0001.jpg'',
      JsonPath = ''/t/Trip/IMG_0001.jpg.json'', Albums = Some [(''Trip'', True)],
      FinalAlbum = [], DateAccuracy = 1, Size = 5\<rparr>"

definition dup_undated :: Photo where
  "dup_undated =
     \<lparr>Hash = ''9f86d081884c7d65'', HashError = False, SrcPath = ''/t/Beach/a.jpg'',
      JsonPath = [], Albums = Some [(''Beach'', True)],
      FinalAlbum = [], DateAccuracy = 99, Size = 5\<rparr>"






section \<open>Properties of album assignment\<close>

lemma first_selected_Albums: "Albums (first_selected sel p) = Albums p"
  by (induction sel) auto

lemma first_selected_find:
  "FinalAlbum (first_selected sel p) =
     (case find (\<lambda>name. index_bool (Albums p) name) sel of
        None \<Rightarrow> FinalAlbum p | Some name \<Rightarrow> name)"
  by (induction sel) auto

lemma index_bool_None: "index_bool None k = False"
  by (simp add: index_bool_def)

lemma find_index_bool_None: "find (\<lambda>name. index_bool None name) sel = None"
  by (induction sel) (auto simp: index_bool_None)

lemma assign_one_Albums: "Albums (assign_one sel p) = Albums p"
  by (simp add: assign_one_def Let_def first_selected_Albums)

lemma assign_one_find:
  "FinalAlbum (assign_one sel p) =
     (case find (\<lambda>name. index_bool (Albums p) name) sel of None \<Rightarrow> [] | Some name \<Rightarrow> name)"
proof (cases "Albums p = None \<or> length sel = 0")
  case True
  then show ?thesis
    by (auto simp: assign_one_def Let_def find_index_bool_None)
next
  case False
  then show ?thesis
    by (auto simp: assign_one_def Let_def first_selected_find split: option.splits)
qed

text \<open>
  Claim C4. After \<^const>\<open>AssignFinalAlbums\<close> has run with the selection \<open>selected\<close>, every
  record keeps its album memberships, its \<^const>\<open>FinalAlbum\<close> is the first name of
  \<open>selected\<close> that its memberships hold (the empty string when there is none, so also
  when \<open>selected\<close> is empty), and the \<^const>\<open>FinalAlbum\<close> is empty or one of the memberships.
\<close>

theorem AssignFinalAlbums_first_member:
  assumes "i < length photos" and "photos ! i = Some p"
  shows "\<exists>q. AssignFinalAlbums photos selected ! i = Some q \<and>
           Albums q = Albums p \<and>
           FinalAlbum q =
             (case find (\<lambda>name. index_bool (Albums p) name) selected of
                None \<Rightarrow> [] | Some name \<Rightarrow> name) \<and>
           (FinalAlbum q = [] \<or> index_bool (Albums q) (FinalAlbum q))"
proof -
  let ?q = "assign_one selected p"
  have res: "AssignFinalAlbums photos selected ! i = Some ?q"
    using assms by (simp add: AssignFinalAlbums_def)
  have fin: "FinalAlbum ?q =
      (case find (\<lambda>name. index_bool (Albums p) name) selected of None \<Rightarrow> [] | Some name \<Rightarrow> name)"
    by (rule assign_one_find)
  have mem: "FinalAlbum ?q = [] \<or> index_bool (Albums ?q) (FinalAlbum ?q)"
  proof (cases "find (\<lambda>name. index_bool (Albums p) name) selected")
    case None
    then show ?thesis using fin by simp
  next
    case (Some name)
    then have "index_bool (Albums p) name"
      by (auto simp: find_Some_iff)
    then show ?thesis using fin Some by (simp add: assign_one_Albums)
  qed
  show ?thesis using res fin mem assign_one_Albums by blast
qed


theorem AssignFinalAlbums_first_member_witness:
  "(0::nat) < length [Some trip_beach_photo] \<and>
   [Some trip_beach_photo] ! 0 = Some trip_beach_photo \<and>
   find (\<lambda>name. index_bool (Albums trip_beach_photo) name) [''Home'', ''Beach'', ''Trip''] =
     Some ''Beach'' \<and>
   (\<exists>q. AssignFinalAlbums [Some trip_beach_photo] [''Home'', ''Beach'', ''Trip''] ! 0 = Some q \<and>
        Albums q = Albums trip_beach_photo \<and> FinalAlbum q = ''Beach'' \<and>
        index_bool (Albums q) ''Beach'')"
proof -
  have len: "(0::nat) < length [Some trip_beach_photo]" by simp
  have at: "[Some trip_beach_photo] ! 0 = Some trip_beach_photo" by simp
  have first: "find (\<lambda>name. index_bool (Albums trip_beach_photo) name)
      [''Home'', ''Beach'', ''Trip''] = Some ''Beach''"
    by (simp add: index_bool_def trip_beach_photo_def)
  from AssignFinalAlbums_first_member [OF len at, of "[''Home'', ''Beach'', ''Trip'']"]
  have "\<exists>q. AssignFinalAlbums [Some trip_beach_photo] [''Home'', ''Beach'', ''Trip''] ! 0 = Some q \<and>
        Albums q = Albums trip_beach_photo \<and> FinalAlbum q = ''Beach'' \<and>
        index_bool (Albums q) ''Beach''"
    unfolding first by auto
  then show ?thesis using len at first by blast
qed

section \<open>Properties of date resolution\<close>

lemma civil_year_early:
  assumes "d < 584388"
  shows "civil_year d \<le> 1900"
proof -
  define n400 where "n400 = d div 146097"
  define d1 where "d1 = d mod 146097"
  define n100 where "n100 = d1 div 36524"
  define n100' where "n100' = n100 - n100 div 4"
  define d2 where "d2 = d1 - 36524 * n100'"
  define n4 where "n4 = d2 div 1461"
  define d3 where "d3 = d2 mod 1461"
  define n1 where "n1 = d3 div 365"
  define n1' where "n1' = n1 - n1 div 4"
  have a: "n400 \<le> 3" using assms unfolding n400_def by linarith
  have b: "0 \<le> d1" "d1 < 146097" unfolding d1_def by simp_all
  have c: "0 \<le> n100" "n100 \<le> 4" using b unfolding n100_def by linarith+
  have c': "0 \<le> n100'" "n100' \<le> 3" using c unfolding n100'_def by linarith+
  have d: "d2 < 146097" using b c' unfolding d2_def by linarith
  have e: "n4 \<le> 99" using d unfolding n4_def by linarith
  have f: "0 \<le> d3" "d3 < 1461" unfolding d3_def by simp_all
  have g: "0 \<le> n1" "n1 \<le> 4" using f unfolding n1_def by linarith+
  have g': "n1' \<le> 3" using g unfolding n1'_def by linarith
  have "civil_year d = 400 * n400 + 100 * n100' + 4 * n4 + n1' + 1"
    unfolding civil_year_def Let_def n400_def d1_def n100_def n100'_def d2_def n4_def
      d3_def n1_def n1'_def
    by simp
  then show ?thesis using a c' e g' by linarith
qed

text \<open>The zero time lies in year 1 or just before it, whatever the zone.\<close>

lemma IsZero_Year:
  assumes "IsZero t" and "zone_ok t"
  shows "Year t < 1990"
proof -
  have "(unix_sec t + zone_offset t + 62135596800) div 86400 < 584388"
    using assms unfolding IsZero_def zone_ok_def by linarith
  then have "Year t \<le> 1900"
    unfolding Year_def by (rule civil_year_early)
  then show ?thesis by simp
qed

lemma shouldOverrideJSON_iff:
  assumes "zone_ok fileTime"
  shows "shouldOverrideJSON env jsonTime fileTime \<longleftrightarrow>
           Before fileTime jsonTime \<and> 1990 \<le> Year fileTime \<and> Year fileTime \<le> Year (Now env) + 1"
proof (cases "IsZero fileTime")
  case True
  then have "Year fileTime < 1990" using assms by (rule IsZero_Year)
  with True show ?thesis
    by (auto simp: shouldOverrideJSON_def isReasonable_def)
next
  case False
  then show ?thesis
    by (auto simp: shouldOverrideJSON_def isReasonable_def Let_def)
qed

lemma isExcluded_iff: "isExcluded path exclude \<longleftrightarrow> index_bool exclude (Base path)"
  by (cases exclude) (auto simp: isExcluded_def map_len_def index_bool_def)

text \<open>
  Claim C1. \<^const>\<open>ExtractBestDate\<close> and \<^const>\<open>ExtractBestDateWithCustomAndExclusions\<close>
  resolve the date by the precedence rule \<^const>\<open>spec_best_date\<close>: when a sidecar and a
  file-name timestamp are both there, the file-name timestamp is returned with tier
  \<^const>\<open>DateAccuracyFilename\<close> if and only if it is strictly before the sidecar timestamp
  and its year is at least 1990 and at most the current year plus one, and otherwise the
  sidecar timestamp is returned with tier \<^const>\<open>DateAccuracyJSON\<close>; a single source is taken
  in the order sidecar, file name, embedded tag; with no source the result carries no
  timestamp and the tier \<^const>\<open>DateAccuracyNone\<close>.
\<close>

theorem ExtractBestDate_precedence:
  assumes json: "ParseJSONTakenTime env jsonPath = json"
    and fname: "GuessDateFromFilename env srcPath = named"
    and cnamed: "GuessDateFromFilenameWithCustomAndExclusions env srcPath custom exclude = cnamed"
    and exif: "ParseExifTakenTime env srcPath = exif"
    and zone: "zone_ok (fst named)" "zone_ok (fst cnamed)"
  shows "ExtractBestDate env srcPath jsonPath = spec_best_date (Now env) json named exif \<and>
         (case ExtractBestDateWithCustomAndExclusions env srcPath (fst json) (snd json) custom exclude
          of (t, accuracy, ok, _) \<Rightarrow> (t, accuracy, ok)) =
           spec_best_date (Now env) json cnamed exif"
proof
  show "ExtractBestDate env srcPath jsonPath = spec_best_date (Now env) json named exif"
    using json fname exif shouldOverrideJSON_iff [OF zone(1), of env "fst json"]
    by (cases json; cases named; cases exif)
      (simp add: ExtractBestDate_def spec_best_date_def)
next
  show "(case ExtractBestDateWithCustomAndExclusions env srcPath (fst json) (snd json) custom exclude
          of (t, accuracy, ok, _) \<Rightarrow> (t, accuracy, ok)) =
           spec_best_date (Now env) json cnamed exif"
    using cnamed exif shouldOverrideJSON_iff [OF zone(2), of env "fst json"]
    by (cases json; cases cnamed; cases exif)
      (simp add: ExtractBestDateWithCustomAndExclusions_def spec_best_date_def)
qed

theorem ExtractBestDate_precedence_witness:
  "ParseJSONTakenTime example_env ''/t/Trip/IMG_20190919_053857.jpg.json'' = (t_2020, True) \<and>
   GuessDateFromFilename example_env ''/t/Trip/IMG_20190919_053857.jpg'' = (t_2019, True) \<and>
   GuessDateFromFilenameWithCustomAndExclusions example_env
     ''/t/Trip/IMG_20190919_053857.jpg'' [] None = (t_2019, True) \<and>
   ParseExifTakenTime example_env ''/t/Trip/IMG_20190919_053857.jpg'' = (zeroTime, False) \<and>
   zone_ok t_2019 \<and>
   ExtractBestDate example_env ''/t/Trip/IMG_20190919_053857.jpg''
     ''/t/Trip/IMG_20190919_053857.jpg.json'' = (t_2019, DateAccuracyFilename, True) \<and>
   ExtractBestDateWithCustomAndExclusions example_env ''/t/Trip/IMG_20190919_053857.jpg''
     t_2020 True [] None = (t_2019, DateAccuracyFilename, True, zeroTime, False)"
proof -
  have base: "Base ''/t/Trip/IMG_20190919_053857.jpg'' = ''IMG_20190919_053857.jpg''"
    by (simp add: Base_def)
  have json: "ParseJSONTakenTime example_env ''/t/Trip/IMG_20190919_053857.jpg.json'' = (t_2020, True)"
    by (simp add: example_env_def)
  have fname: "GuessDateFromFilename example_env ''/t/Trip/IMG_20190919_053857.jpg'' = (t_2019, True)"
    by (simp add: GuessDateFromFilename_def base example_env_def img_pattern_def FindString_def)
  have cfile: "GuessDateFromFilenameWithCustomAndExclusions example_env
      ''/t/Trip/IMG_20190919_053857.jpg'' [] None = (t_2019, True)"
    by (simp add: GuessDateFromFilenameWithCustomAndExclusions_def isExcluded_def map_len_def
        guessWithPatterns_def buildCustomPatterns_def fname)
  have exif: "ParseExifTakenTime example_env ''/t/Trip/IMG_20190919_053857.jpg'' = (zeroTime, False)"
    by (simp add: example_env_def)
  have zone: "zone_ok t_2019"
    by (simp add: zone_ok_def t_2019_def)
  have y19: "Year t_2019 = 2019"
    by (simp add: Year_def t_2019_def civil_year_def Let_def)
  have ynow: "Year t_now = 2026"
    by (simp add: Year_def t_now_def civil_year_def Let_def)
  have before: "Before t_2019 t_2020"
    by (simp add: Before_def t_2019_def t_2020_def)
  have now: "Now example_env = t_now"
    by (simp add: example_env_def)
  have spec: "spec_best_date t_now (t_2020, True) (t_2019, True) (zeroTime, False) =
      (t_2019, DateAccuracyFilename, True)"
    by (simp add: spec_best_date_def y19 ynow before)
  have zone': "zone_ok (fst (t_2019, True))" "zone_ok (fst (t_2019, True))"
    using zone by simp_all
  from ExtractBestDate_precedence [OF json fname cfile exif zone']
  have "ExtractBestDate example_env ''/t/Trip/IMG_20190919_053857.jpg''
          ''/t/Trip/IMG_20190919_053857.jpg.json'' = (t_2019, DateAccuracyFilename, True)"
    and "(case ExtractBestDateWithCustomAndExclusions example_env
            ''/t/Trip/IMG_20190919_053857.jpg'' t_2020 True [] None
          of (t, accuracy, ok, _) \<Rightarrow> (t, accuracy, ok)) = (t_2019, DateAccuracyFilename, True)"
    by (simp_all add: now spec)
  moreover have "snd (snd (snd (ExtractBestDateWithCustomAndExclusions example_env
      ''/t/Trip/IMG_20190919_053857.jpg'' t_2020 True [] None))) = (zeroTime, False)"
    by (simp add: ExtractBestDateWithCustomAndExclusions_def cfile)
  ultimately show ?thesis
    using json fname cfile exif zone
    by (auto split: prod.splits)
qed

text \<open>The two passes over the custom patterns, compiling and matching, as one pass.\<close>

lemma guessWith_loop_custom:
  "guessWith_loop (build_loop env custom) base =
     (case first_date (map (custom_date env base) custom) of
        Some t \<Rightarrow> (t, True)
      | None \<Rightarrow> (zeroTime, False))"
proof (induction custom)
  case Nil
  then show ?case by simp
next
  case (Cons c custom)
  show ?case
  proof (cases "Regex c = [] \<or> Layout c = []")
    case True
    then show ?thesis using Cons.IH by (auto simp: custom_date_def)
  next
    case usable: False
    show ?thesis
    proof (cases "regexp_Compile env (Regex c)")
      case None
      with usable show ?thesis using Cons.IH by (simp add: custom_date_def)
    next
      case (Some r)
      show ?thesis
      proof (cases "r base")
        case Nil
        with usable Some show ?thesis using Cons.IH by (simp add: custom_date_def)
      next
        case (Cons m groups)
        obtain t ok where parsed:
          "ParseWithLayout env (Layout c) (case groups of [] \<Rightarrow> m | g # _ \<Rightarrow> g) = (t, ok)"
          by (cases "ParseWithLayout env (Layout c) (case groups of [] \<Rightarrow> m | g # _ \<Rightarrow> g)")
        have target: "(if 1 < length (m # groups) then (m # groups) ! 1 else (m # groups) ! 0) =
            (case groups of [] \<Rightarrow> m | g # _ \<Rightarrow> g)"
          by (cases groups) simp_all
        have date: "custom_date env base c = (if ok then Some t else None)"
          using usable Some Cons parsed by (simp add: custom_date_def)
        have "guessWith_loop (build_loop env (c # custom)) base =
            (if ok then (t, True) else guessWith_loop (build_loop env custom) base)"
          using usable Some Cons parsed target by (simp add: Let_def)
        then show ?thesis
          using date Cons.IH by simp
      qed
    qed
  qed
qed

lemma guessWithPatterns_custom:
  "guessWithPatterns path (buildCustomPatterns env custom) =
     (case first_date (map (custom_date env (Base path)) custom) of
        Some t \<Rightarrow> (t, True)
      | None \<Rightarrow> (zeroTime, False))"
proof -
  have "guessWithPatterns path (buildCustomPatterns env custom) =
      guessWith_loop (build_loop env custom) (Base path)"
    by (cases custom; cases "build_loop env custom")
      (simp_all add: guessWithPatterns_def buildCustomPatterns_def)
  then show ?thesis by (simp only: guessWith_loop_custom)
qed

text \<open>
  Claim C6. A file whose base name the exclusion set holds gets no file-name date from
  \<^const>\<open>GuessDateFromFilenameWithCustomAndExclusions\<close>, whatever the custom and built-in
  patterns match. For a file that is not excluded, the custom patterns are tried in
  their order, and the date of the first one that gives a date is the result; the
  built-in list (\<^const>\<open>GuessDateFromFilename\<close>) is consulted only when no custom pattern
  gives a date.
\<close>

theorem GuessDate_exclusions_then_custom_then_builtin:
  "(index_bool exclude (Base path) \<longrightarrow>
      GuessDateFromFilenameWithCustomAndExclusions env path custom exclude = (zeroTime, False)) \<and>
   (\<not> index_bool exclude (Base path) \<longrightarrow>
      GuessDateFromFilenameWithCustomAndExclusions env path custom exclude =
        (case first_date (map (custom_date env (Base path)) custom) of
           Some t \<Rightarrow> (t, True)
         | None \<Rightarrow> GuessDateFromFilename env path))"
  by (cases "first_date (map (custom_date env (Base path)) custom)")
    (simp_all add: GuessDateFromFilenameWithCustomAndExclusions_def isExcluded_iff
      guessWithPatterns_custom)

lemmas custom_eval =
  custom_date_def custom_env_def example_env_def img_day_re_def img_pattern_def
  unbalanced_def no_layout_def img_day_def HasPrefix_def FindString_def
  GuessDateFromFilename_def index_bool_def

theorem GuessDate_exclusions_then_custom_then_builtin_witness:
  "Base ''/t/Trip/IMG_20190919_053857.jpg'' = ''IMG_20190919_053857.jpg'' \<and>
   map (custom_date custom_env ''IMG_20190919_053857.jpg'') [unbalanced, no_layout, img_day] =
     [None, None, Some t_day] \<and>
   GuessDateFromFilename custom_env ''/t/Trip/IMG_20190919_053857.jpg'' = (t_2019, True) \<and>
   GuessDateFromFilenameWithCustomAndExclusions custom_env ''/t/Trip/IMG_20190919_053857.jpg''
     [unbalanced, no_layout, img_day] (Some [(''other.jpg'', True)]) = (t_day, True) \<and>
   GuessDateFromFilenameWithCustomAndExclusions custom_env ''/t/Trip/IMG_20190919_053857.jpg''
     [unbalanced, no_layout] (Some [(''other.jpg'', True)]) = (t_2019, True) \<and>
   GuessDateFromFilenameWithCustomAndExclusions custom_env ''/t/Trip/IMG_20190919_053857.jpg''
     [unbalanced, no_layout, img_day] (Some [(''IMG_20190919_053857.jpg'', True)]) =
     (zeroTime, False)"
proof -
  let ?path = "''/t/Trip/IMG_20190919_053857.jpg''"
  have base: "Base ?path = ''IMG_20190919_053857.jpg''"
    by (simp add: Base_def)
  have attempts: "map (custom_date custom_env ''IMG_20190919_053857.jpg'')
      [unbalanced, no_layout, img_day] = [None, None, Some t_day]"
    by (simp add: custom_eval)
  have builtin: "GuessDateFromFilename custom_env ?path = (t_2019, True)"
    by (simp add: base custom_eval)
  have excl: "index_bool (Some [(''IMG_20190919_053857.jpg'', True)]) (Base ?path)"
    by (simp add: base index_bool_def)
  have nexcl: "\<not> index_bool (Some [(''other.jpg'', True)]) (Base ?path)"
    by (simp add: base index_bool_def)
  have custom_first: "GuessDateFromFilenameWithCustomAndExclusions custom_env ?path
      [unbalanced, no_layout, img_day] (Some [(''other.jpg'', True)]) = (t_day, True)"
    using GuessDate_exclusions_then_custom_then_builtin
      [of "Some [(''other.jpg'', True)]" ?path custom_env "[unbalanced, no_layout, img_day]"]
      nexcl attempts
    by (simp add: base)
  have builtin_last: "GuessDateFromFilenameWithCustomAndExclusions custom_env ?path
      [unbalanced, no_layout] (Some [(''other.jpg'', True)]) = (t_2019, True)"
    using GuessDate_exclusions_then_custom_then_builtin
      [of "Some [(''other.jpg'', True)]" ?path custom_env "[unbalanced, no_layout]"]
      nexcl attempts builtin
    by (simp add: base)
  have excluded: "GuessDateFromFilenameWithCustomAndExclusions custom_env ?path
      [unbalanced, no_layout, img_day] (Some [(''IMG_20190919_053857.jpg'', True)]) =
      (zeroTime, False)"
    using GuessDate_exclusions_then_custom_then_builtin
      [of "Some [(''IMG_20190919_053857.jpg'', True)]" ?path custom_env
        "[unbalanced, no_layout, img_day]"]
      excl
    by simp
  show ?thesis
    using base attempts builtin custom_first builtin_last excluded by simp
qed

section \<open>Properties of the collision resolver\<close>

lemma suffix_loop_free:
  assumes "i \<le> k" and "k < 10000"
    and "\<And>j. i \<le> j \<Longrightarrow> j < k \<Longrightarrow> Stat (Join dir (name @ ''-'' @ dec_nat j @ ext)) = None"
    and "Stat (Join dir (name @ ''-'' @ dec_nat k @ ext)) = Some ErrNotExist"
  shows "suffix_loop Stat dir filename name ext i = Inr (Join dir (name @ ''-'' @ dec_nat k @ ext))"
  using assms
proof (induction "k - i" arbitrary: i)
  case 0
  then have "i = k" by simp
  with 0 show ?case
    by (subst suffix_loop.simps) (simp add: IsNotExist_def)
next
  case (Suc n)
  then have lt: "i < k" and taken: "Stat (Join dir (name @ ''-'' @ dec_nat i @ ext)) = None"
    by simp_all
  have "suffix_loop Stat dir filename name ext (i + 1) =
      Inr (Join dir (name @ ''-'' @ dec_nat k @ ext))"
    using Suc.hyps(2) lt Suc.prems by (intro Suc.hyps(1)) simp_all
  with lt Suc.prems(2) taken show ?case
    by (subst suffix_loop.simps) (simp add: IsNotExist_def)
qed

lemma suffix_loop_result:
  "suffix_loop Stat dir filename name ext i = Inr p \<Longrightarrow>
     \<exists>k. i \<le> k \<and> k < 10000 \<and> p = Join dir (name @ ''-'' @ dec_nat k @ ext) \<and>
         Stat p = Some ErrNotExist \<and>
         (\<forall>j. i \<le> j \<and> j < k \<longrightarrow> Stat (Join dir (name @ ''-'' @ dec_nat j @ ext)) = None)"
proof (induction Stat dir filename name ext i rule: suffix_loop.induct)
  case (1 Stat dir filename name ext i)
  show ?case
  proof (cases "i < 10000")
    case False
    with "1.prems" show ?thesis
      by (subst (asm) suffix_loop.simps) simp
  next
    case True
    let ?path = "Join dir (name @ ''-'' @ dec_nat i @ ext)"
    consider (free) "Stat ?path = Some ErrNotExist"
      | (failed) "Stat ?path \<noteq> Some ErrNotExist" "Stat ?path \<noteq> None"
      | (taken) "Stat ?path = None"
      by blast
    then show ?thesis
    proof cases
      case free
      with True "1.prems" have "p = ?path"
        by (subst (asm) suffix_loop.simps) (simp add: IsNotExist_def)
      with free True show ?thesis by (intro exI [of _ i]) auto
    next
      case failed
      with True "1.prems" show ?thesis
        by (subst (asm) suffix_loop.simps) (simp add: IsNotExist_def)
    next
      case taken
      with True "1.prems" have rec: "suffix_loop Stat dir filename name ext (i + 1) = Inr p"
        by (subst (asm) suffix_loop.simps) (simp add: IsNotExist_def)
      have "\<exists>k. i + 1 \<le> k \<and> k < 10000 \<and> p = Join dir (name @ ''-'' @ dec_nat k @ ext) \<and>
          Stat p = Some ErrNotExist \<and>
          (\<forall>j. i + 1 \<le> j \<and> j < k \<longrightarrow> Stat (Join dir (name @ ''-'' @ dec_nat j @ ext)) = None)"
        using "1.IH" [OF True refl refl _ _ rec] taken by (simp add: IsNotExist_def)
      then obtain k where k: "i + 1 \<le> k" "k < 10000" "p = Join dir (name @ ''-'' @ dec_nat k @ ext)"
        "Stat p = Some ErrNotExist"
        "\<forall>j. i + 1 \<le> j \<and> j < k \<longrightarrow> Stat (Join dir (name @ ''-'' @ dec_nat j @ ext)) = None"
        by blast
      have "\<forall>j. i \<le> j \<and> j < k \<longrightarrow> Stat (Join dir (name @ ''-'' @ dec_nat j @ ext)) = None"
      proof (intro allI impI)
        fix j assume j: "i \<le> j \<and> j < k"
        show "Stat (Join dir (name @ ''-'' @ dec_nat j @ ext)) = None"
        proof (cases "j = i")
          case True
          then show ?thesis using taken by simp
        next
          case False
          with j have "i + 1 \<le> j \<and> j < k" by simp
          with k(5) show ?thesis by blast
        qed
      qed
      with k show ?thesis by (intro exI [of _ k]) simp
    qed
  qed
qed

lemma suffix_loop_too_many:
  "suffix_loop Stat dir filename name ext i = Inl (TooManyCollisions f) \<longleftrightarrow>
     f = filename \<and>
     (\<forall>j. i \<le> j \<and> j < 10000 \<longrightarrow> Stat (Join dir (name @ ''-'' @ dec_nat j @ ext)) = None)"
proof (induction Stat dir filename name ext i rule: suffix_loop.induct)
  case (1 Stat dir filename name ext i)
  show ?case
  proof (cases "i < 10000")
    case False
    then show ?thesis
      by (subst suffix_loop.simps) auto
  next
    case True
    let ?path = "Join dir (name @ ''-'' @ dec_nat i @ ext)"
    consider (free) "Stat ?path = Some ErrNotExist"
      | (failed) "Stat ?path \<noteq> Some ErrNotExist" "Stat ?path \<noteq> None"
      | (taken) "Stat ?path = None"
      by blast
    then show ?thesis
    proof cases
      case free
      with True show ?thesis
        by (subst suffix_loop.simps) (auto simp: IsNotExist_def)
    next
      case failed
      with True show ?thesis
        by (subst suffix_loop.simps) (auto simp: IsNotExist_def)
    next
      case taken
      have ih: "suffix_loop Stat dir filename name ext (i + 1) = Inl (TooManyCollisions f) \<longleftrightarrow>
          f = filename \<and>
          (\<forall>j. i + 1 \<le> j \<and> j < 10000 \<longrightarrow> Stat (Join dir (name @ ''-'' @ dec_nat j @ ext)) = None)"
        using "1.IH" [OF True refl refl] taken by (simp add: IsNotExist_def)
      have split: "(\<forall>j. i \<le> j \<and> j < 10000 \<longrightarrow> Stat (Join dir (name @ ''-'' @ dec_nat j @ ext)) = None) \<longleftrightarrow>
          (\<forall>j. i + 1 \<le> j \<and> j < 10000 \<longrightarrow> Stat (Join dir (name @ ''-'' @ dec_nat j @ ext)) = None)"
      proof
        assume "\<forall>j. i \<le> j \<and> j < 10000 \<longrightarrow> Stat (Join dir (name @ ''-'' @ dec_nat j @ ext)) = None"
        then show "\<forall>j. i + 1 \<le> j \<and> j < 10000 \<longrightarrow> Stat (Join dir (name @ ''-'' @ dec_nat j @ ext)) = None"
          by simp
      next
        assume r: "\<forall>j. i + 1 \<le> j \<and> j < 10000 \<longrightarrow> Stat (Join dir (name @ ''-'' @ dec_nat j @ ext)) = None"
        show "\<forall>j. i \<le> j \<and> j < 10000 \<longrightarrow> Stat (Join dir (name @ ''-'' @ dec_nat j @ ext)) = None"
        proof (intro allI impI)
          fix j assume j: "i \<le> j \<and> j < 10000"
          show "Stat (Join dir (name @ ''-'' @ dec_nat j @ ext)) = None"
          proof (cases "j = i")
            case True
            then show ?thesis using taken by simp
          next
            case False
            with j have "i + 1 \<le> j \<and> j < 10000" by simp
            with r show ?thesis by blast
          qed
        qed
      qed
      have "suffix_loop Stat dir filename name ext i = suffix_loop Stat dir filename name ext (i + 1)"
        using True taken by (subst suffix_loop.simps) (simp add: IsNotExist_def)
      with ih split show ?thesis by simp
    qed
  qed
qed

text \<open>The slice \<^verbatim>\<open>hash[:8]\<close> is taken only of a longer hash; both cases are \<^term>\<open>take 8 hash\<close>.\<close>

lemma hashPart_take: "(if length hash > 8 then take 8 hash else hash) = take 8 (hash::string)"
  by simp

text \<open>The resolver as one case distinction over the three kinds of candidates.\<close>

lemma uniquePath_cases:
  "uniquePath Stat dir filename hash =
     (if Stat (Join dir filename) = Some ErrNotExist then Inr (Join dir filename)
      else if Stat (Join dir filename) \<noteq> None then Inl (StatError (the (Stat (Join dir filename))))
      else if hash \<noteq> [] \<and> Stat (hash_path dir filename hash) = Some ErrNotExist
        then Inr (hash_path dir filename hash)
      else if hash \<noteq> [] \<and> Stat (hash_path dir filename hash) \<noteq> None
        then Inl (StatError (the (Stat (hash_path dir filename hash))))
      else suffix_loop Stat dir filename (TrimSuffix filename (Ext filename)) (Ext filename) 1)"
  by (cases "hash = []")
    (simp_all add: uniquePath_def Let_def IsNotExist_def hash_path_def hashPart_take)

lemma numbered_path_unfold:
  "numbered_path dir filename i =
     Join dir (TrimSuffix filename (Ext filename) @ ''-'' @ dec_nat i @ Ext filename)"
  by (simp add: numbered_path_def)

lemma uniquePath_numbered:
  assumes "Stat (Join dir filename) = None"
    and "hash = [] \<or> Stat (hash_path dir filename hash) = None"
    and "1 \<le> k" and "k \<le> 9999"
    and "\<forall>j. 1 \<le> j \<and> j < k \<longrightarrow> Stat (numbered_path dir filename j) = None"
    and "Stat (numbered_path dir filename k) = Some ErrNotExist"
  shows "uniquePath Stat dir filename hash = Inr (numbered_path dir filename k)"
proof -
  have "suffix_loop Stat dir filename (TrimSuffix filename (Ext filename)) (Ext filename) 1 =
      Inr (Join dir (TrimSuffix filename (Ext filename) @ ''-'' @ dec_nat k @ Ext filename))"
    using assms(3-6) by (intro suffix_loop_free) (simp_all add: numbered_path_def)
  then show ?thesis
    using assms(1,2) by (auto simp: uniquePath_cases numbered_path_def)
qed

lemma uniquePath_too_many:
  "uniquePath Stat dir filename hash = Inl (TooManyCollisions filename) \<longleftrightarrow>
     Stat (Join dir filename) = None \<and>
     (hash = [] \<or> Stat (hash_path dir filename hash) = None) \<and>
     (\<forall>j. 1 \<le> j \<and> j \<le> 9999 \<longrightarrow> Stat (numbered_path dir filename j) = None)"
proof -
  have bound: "\<And>j::nat. j < 10000 \<longleftrightarrow> j \<le> 9999" by auto
  show ?thesis
    by (auto simp: uniquePath_cases suffix_loop_too_many numbered_path_def bound)
qed

lemma uniquePath_result:
  assumes "uniquePath Stat dir filename hash = Inr p"
  shows "Stat p = Some ErrNotExist \<and>
         (p = Join dir filename \<or>
          (hash \<noteq> [] \<and> p = hash_path dir filename hash) \<or>
          (\<exists>k. 1 \<le> k \<and> k \<le> 9999 \<and> p = numbered_path dir filename k))"
proof -
  consider (orig) "Stat (Join dir filename) = Some ErrNotExist"
    | (hashed) "Stat (Join dir filename) = None" "hash \<noteq> []"
        "Stat (hash_path dir filename hash) = Some ErrNotExist"
    | (loop) "suffix_loop Stat dir filename (TrimSuffix filename (Ext filename)) (Ext filename) 1 = Inr p"
    using assms by (auto simp: uniquePath_cases split: if_splits)
  then show ?thesis
  proof cases
    case orig
    with assms show ?thesis by (auto simp: uniquePath_cases)
  next
    case hashed
    with assms show ?thesis by (auto simp: uniquePath_cases)
  next
    case loop
    from suffix_loop_result [OF loop]
    obtain k where "1 \<le> k" "k < 10000" "p = numbered_path dir filename k" "Stat p = Some ErrNotExist"
      by (auto simp: numbered_path_def)
    then show ?thesis by (intro conjI disjI2 exI [of _ k]) simp_all
  qed
qed

lemma uniquePath_fresh:
  assumes "uniquePath Stat dir filename hash = Inr p1"
    and "uniquePath (written Stat p1) dir filename hash2 = Inr p2"
  shows "p2 \<noteq> p1"
proof
  assume "p2 = p1"
  moreover have "written Stat p1 p2 = Some ErrNotExist"
    using uniquePath_result [OF assms(2)] by simp
  ultimately show False by (simp add: written_def)
qed

text \<open>
  Claim C3, as amended. The resolver is a function of the destination tree, the file name
  and the hash, and tries its candidates in order. It returns the original name when
  nothing exists there. When the original name exists and the hash is not empty, it
  returns the name with the first eight characters of the hash appended (the whole hash
  when it has at most eight) if that path is free. When the hash is empty, or the
  hash-suffixed name exists too, it returns the first free name among the numeric suffixes
  1 to 9999. It reports too many collisions exactly when the original name, the
  hash-suffixed name (for a hash that is not empty) and all 9999 numbered names exist. A
  returned path never exists in the tree that was probed, so a second content resolved for
  the same file name after the first one was written gets a different path.
\<close>

theorem uniquePath_ordered:
  "(Stat (Join dir filename) = Some ErrNotExist \<longrightarrow>
      uniquePath Stat dir filename hash = Inr (Join dir filename)) \<and>
   (Stat (Join dir filename) = None \<and> hash \<noteq> [] \<and>
    Stat (hash_path dir filename hash) = Some ErrNotExist \<longrightarrow>
      uniquePath Stat dir filename hash = Inr (hash_path dir filename hash)) \<and>
   (\<forall>k. Stat (Join dir filename) = None \<and>
        (hash = [] \<or> Stat (hash_path dir filename hash) = None) \<and>
        1 \<le> k \<and> k \<le> 9999 \<and>
        (\<forall>j. 1 \<le> j \<and> j < k \<longrightarrow> Stat (numbered_path dir filename j) = None) \<and>
        Stat (numbered_path dir filename k) = Some ErrNotExist \<longrightarrow>
      uniquePath Stat dir filename hash = Inr (numbered_path dir filename k)) \<and>
   (uniquePath Stat dir filename hash = Inl (TooManyCollisions filename) \<longleftrightarrow>
      Stat (Join dir filename) = None \<and>
      (hash = [] \<or> Stat (hash_path dir filename hash) = None) \<and>
      (\<forall>j. 1 \<le> j \<and> j \<le> 9999 \<longrightarrow> Stat (numbered_path dir filename j) = None)) \<and>
   (\<forall>p. uniquePath Stat dir filename hash = Inr p \<longrightarrow> Stat p = Some ErrNotExist) \<and>
   (\<forall>p1 p2 hash2.
      uniquePath Stat dir filename hash = Inr p1 \<and>
      uniquePath (written Stat p1) dir filename hash2 = Inr p2 \<longrightarrow> p2 \<noteq> p1)"
proof (intro conjI)
  show "Stat (Join dir filename) = Some ErrNotExist \<longrightarrow>
      uniquePath Stat dir filename hash = Inr (Join dir filename)"
    by (simp add: uniquePath_cases)
  show "Stat (Join dir filename) = None \<and> hash \<noteq> [] \<and>
      Stat (hash_path dir filename hash) = Some ErrNotExist \<longrightarrow>
      uniquePath Stat dir filename hash = Inr (hash_path dir filename hash)"
    by (simp add: uniquePath_cases)
  show "\<forall>k. Stat (Join dir filename) = None \<and>
        (hash = [] \<or> Stat (hash_path dir filename hash) = None) \<and>
        1 \<le> k \<and> k \<le> 9999 \<and>
        (\<forall>j. 1 \<le> j \<and> j < k \<longrightarrow> Stat (numbered_path dir filename j) = None) \<and>
        Stat (numbered_path dir filename k) = Some ErrNotExist \<longrightarrow>
      uniquePath Stat dir filename hash = Inr (numbered_path dir filename k)"
    using uniquePath_numbered by blast
  show "uniquePath Stat dir filename hash = Inl (TooManyCollisions filename) \<longleftrightarrow>
      Stat (Join dir filename) = None \<and>
      (hash = [] \<or> Stat (hash_path dir filename hash) = None) \<and>
      (\<forall>j. 1 \<le> j \<and> j \<le> 9999 \<longrightarrow> Stat (numbered_path dir filename j) = None)"
    by (rule uniquePath_too_many)
  show "\<forall>p. uniquePath Stat dir filename hash = Inr p \<longrightarrow> Stat p = Some ErrNotExist"
    using uniquePath_result by blast
  show "\<forall>p1 p2 hash2.
      uniquePath Stat dir filename hash = Inr p1 \<and>
      uniquePath (written Stat p1) dir filename hash2 = Inr p2 \<longrightarrow> p2 \<noteq> p1"
    using uniquePath_fresh by blast
qed

lemma example_paths:
  "Join ''out/Library'' ''a.jpg'' = ''out/Library/a.jpg''"
  "hash_path ''out/Library'' ''a.jpg'' ''0123456789abcdef'' = ''out/Library/a-01234567.jpg''"
  "hash_path ''out/Library'' ''a.jpg'' '''' = ''out/Library/a-.jpg''"
  "numbered_path ''out/Library'' ''a.jpg'' 1 = ''out/Library/a-1.jpg''"
  "numbered_path ''out/Library'' ''a.jpg'' (Suc 0) = ''out/Library/a-1.jpg''"
  by (simp_all add: Join_def Clean_def clean_step_def HasPrefix_def hash_path_def
      numbered_path_def Ext_def TrimSuffix_def HasSuffix_def dec_nat.simps digit_char_def)

theorem uniquePath_ordered_witness:
  "empty_tree (Join ''out/Library'' ''a.jpg'') = Some ErrNotExist \<and>
   uniquePath empty_tree ''out/Library'' ''a.jpg'' ''fedcba9876543210'' = Inr ''out/Library/a.jpg'' \<and>
   one_file_tree = written empty_tree ''out/Library/a.jpg'' \<and>
   one_file_tree (Join ''out/Library'' ''a.jpg'') = None \<and>
   one_file_tree (hash_path ''out/Library'' ''a.jpg'' ''0123456789abcdef'') = Some ErrNotExist \<and>
   uniquePath one_file_tree ''out/Library'' ''a.jpg'' ''0123456789abcdef'' =
     Inr ''out/Library/a-01234567.jpg'' \<and>
   two_file_tree (hash_path ''out/Library'' ''a.jpg'' ''0123456789abcdef'') = None \<and>
   two_file_tree (numbered_path ''out/Library'' ''a.jpg'' 1) = Some ErrNotExist \<and>
   uniquePath two_file_tree ''out/Library'' ''a.jpg'' ''0123456789abcdef'' =
     Inr ''out/Library/a-1.jpg'' \<and>
   uniquePath full_tree ''out/Library'' ''a.jpg'' ''0123456789abcdef'' =
     Inl (TooManyCollisions ''a.jpg'')"
proof -
  have e0: "empty_tree (Join ''out/Library'' ''a.jpg'') = Some ErrNotExist"
    by (simp add: empty_tree_def)
  have o0: "one_file_tree (Join ''out/Library'' ''a.jpg'') = None"
    by (simp add: one_file_tree_def written_def example_paths)
  have o1: "one_file_tree (hash_path ''out/Library'' ''a.jpg'' ''0123456789abcdef'') = Some ErrNotExist"
    by (simp add: one_file_tree_def written_def empty_tree_def example_paths)
  have t0: "two_file_tree (Join ''out/Library'' ''a.jpg'') = None"
    by (simp add: two_file_tree_def one_file_tree_def written_def example_paths)
  have t1: "two_file_tree (hash_path ''out/Library'' ''a.jpg'' ''0123456789abcdef'') = None"
    by (simp add: two_file_tree_def written_def example_paths)
  have t2: "two_file_tree (numbered_path ''out/Library'' ''a.jpg'' 1) = Some ErrNotExist"
    by (simp add: two_file_tree_def one_file_tree_def written_def empty_tree_def example_paths)
  have r1: "uniquePath empty_tree ''out/Library'' ''a.jpg'' ''fedcba9876543210'' =
      Inr (Join ''out/Library'' ''a.jpg'')"
    using uniquePath_ordered [of empty_tree "''out/Library''" "''a.jpg''" "''fedcba9876543210''"] e0
    by blast
  have r2: "uniquePath one_file_tree ''out/Library'' ''a.jpg'' ''0123456789abcdef'' =
      Inr (hash_path ''out/Library'' ''a.jpg'' ''0123456789abcdef'')"
    using uniquePath_ordered [of one_file_tree "''out/Library''" "''a.jpg''" "''0123456789abcdef''"]
      o0 o1
    by blast
  have r3: "uniquePath two_file_tree ''out/Library'' ''a.jpg'' ''0123456789abcdef'' =
      Inr (numbered_path ''out/Library'' ''a.jpg'' 1)"
  proof -
    have "\<forall>j::nat. 1 \<le> j \<and> j < 1 \<longrightarrow>
        two_file_tree (numbered_path ''out/Library'' ''a.jpg'' j) = None"
      by simp
    then show ?thesis
      using uniquePath_ordered [of two_file_tree "''out/Library''" "''a.jpg''" "''0123456789abcdef''"]
        t0 t1 t2
      by (metis le_refl one_le_numeral)
  qed
  have r4: "uniquePath full_tree ''out/Library'' ''a.jpg'' ''0123456789abcdef'' =
      Inl (TooManyCollisions ''a.jpg'')"
    using uniquePath_ordered [of full_tree "''out/Library''" "''a.jpg''" "''0123456789abcdef''"]
    by (simp add: full_tree_def)
  show ?thesis
    using e0 o0 o1 t1 t2 r1 r2 r3 r4
    by (simp add: example_paths one_file_tree_def)
qed

text \<open>
  The claim as it was stated fails in two ways. For an empty hash: in a tree that holds
  only \<^verbatim>\<open>out/Library/a.jpg\<close>, the name with the (empty) hash appended is free, yet the
  resolver does not return it: it goes on to the numbered names. And for two contents
  with the same file name: the resolver only probes the tree, so as long as nothing has
  been written, two different hashes get the same path, here the original name in the
  empty tree. The caller releases its lock between resolving a path and copying the
  file, and copies nothing in a dry run.
\<close>

theorem uniquePath_as_stated_counterexample:
  "one_file_tree (Join ''out/Library'' ''a.jpg'') = None \<and>
   hash_path ''out/Library'' ''a.jpg'' '''' = ''out/Library/a-.jpg'' \<and>
   one_file_tree (hash_path ''out/Library'' ''a.jpg'' '''') = Some ErrNotExist \<and>
   uniquePath one_file_tree ''out/Library'' ''a.jpg'' '''' = Inr ''out/Library/a-1.jpg'' \<and>
   uniquePath one_file_tree ''out/Library'' ''a.jpg'' '''' \<noteq>
     Inr (hash_path ''out/Library'' ''a.jpg'' '''') \<and>
   ''0123456789abcdef'' \<noteq> ''fedcba9876543210'' \<and>
   uniquePath empty_tree ''out/Library'' ''a.jpg'' ''0123456789abcdef'' =
     Inr ''out/Library/a.jpg'' \<and>
   uniquePath empty_tree ''out/Library'' ''a.jpg'' ''fedcba9876543210'' =
     Inr ''out/Library/a.jpg''"
proof -
  have o0: "one_file_tree (Join ''out/Library'' ''a.jpg'') = None"
    by (simp add: one_file_tree_def written_def example_paths)
  have o1: "one_file_tree (hash_path ''out/Library'' ''a.jpg'' '''') = Some ErrNotExist"
    by (simp add: one_file_tree_def written_def empty_tree_def example_paths)
  have o2: "one_file_tree (numbered_path ''out/Library'' ''a.jpg'' 1) = Some ErrNotExist"
    by (simp add: one_file_tree_def written_def empty_tree_def example_paths)
  have numbered: "uniquePath one_file_tree ''out/Library'' ''a.jpg'' '''' =
      Inr (numbered_path ''out/Library'' ''a.jpg'' 1)"
    using o0 o2 by (intro uniquePath_numbered) simp_all
  have e0: "empty_tree (Join ''out/Library'' ''a.jpg'') = Some ErrNotExist"
    by (simp add: empty_tree_def)
  have same: "uniquePath empty_tree ''out/Library'' ''a.jpg'' h = Inr ''out/Library/a.jpg''" for h
    using e0 by (simp add: uniquePath_cases example_paths)
  show ?thesis
    using numbered o0 o1 same by (simp add: example_paths)
qed

section \<open>Properties of the registry build\<close>

lemma set_update_subset: "set (AList.update k v al) \<subseteq> insert (k, v) (set al)"
  by (induction al) auto

lemma registry_ok_update:
  assumes "registry_ok registry" and "Albums photo \<noteq> None" and "HashError photo \<longrightarrow> Hash photo = []"
  shows "registry_ok (AList.update key photo registry)"
  using assms set_update_subset [of key photo registry]
  unfolding registry_ok_def by blast

lemma registry_ok_lookup:
  assumes "registry_ok registry" and "map_of registry key = Some photo"
  shows "Albums photo \<noteq> None \<and> (HashError photo \<longrightarrow> Hash photo = [])"
  using assms map_of_SomeD [of registry key photo]
  unfolding registry_ok_def by blast

lemma map_store_Inr:
  "map_store k v m = Inr m' \<Longrightarrow> m' \<noteq> None"
  by (auto simp: map_store_def split: option.splits)

lemma map_store_usable:
  "m \<noteq> None \<Longrightarrow> \<exists>m'. map_store k v m = Inr m'"
  by (auto simp: map_store_def split: option.splits)

lemma record_hash_usable:
  assumes "Files cache \<noteq> None"
  shows "\<exists>files. record_hash cache path fsize mtime hash hashErr = Inr files \<and> files \<noteq> None"
  using assms by (auto simp: record_hash_def map_store_def split: option.splits)

lemma fold_in_ok:
  assumes "fold_in registry key hash hashError p fsize = Inr registry'"
    and "registry_ok registry" and "hashError \<longrightarrow> hash = []"
  shows "registry_ok registry'"
proof -
  define photo where "photo =
    (case map_of registry key of
       Some existing \<Rightarrow> existing
     | None \<Rightarrow> \<lparr>Hash = hash, HashError = hashError, SrcPath = MediaPath p,
         JsonPath = pair_JsonPath p, Albums = Some [], FinalAlbum = [],
         DateAccuracy = 0, Size = 0\<rparr>)"
  have photo_ok: "Albums photo \<noteq> None \<and> (HashError photo \<longrightarrow> Hash photo = [])"
  proof (cases "map_of registry key")
    case None
    then show ?thesis using assms(3) by (simp add: photo_def)
  next
    case (Some existing)
    then show ?thesis
      using registry_ok_lookup [OF assms(2) Some] by (simp add: photo_def)
  qed
  from assms(1) obtain albums where
    lab: "(if Album p \<noteq> [] then map_store (Album p) True (Albums photo) else Inr (Albums photo)) =
      Inr albums"
    and reg: "registry' = AList.update key (photo\<lparr>Albums := albums, Size := fsize\<rparr>) registry"
    unfolding fold_in_def photo_def by (auto simp: Let_def split: sum.splits)
  have "albums \<noteq> None"
  proof (cases "Album p = []")
    case True
    with lab photo_ok show ?thesis by simp
  next
    case False
    with lab have "map_store (Album p) True (Albums photo) = Inr albums" by simp
    then show ?thesis by (rule map_store_Inr)
  qed
  with photo_ok show ?thesis
    unfolding reg by (intro registry_ok_update [OF assms(2)]) simp_all
qed

lemma fold_in_usable:
  assumes "registry_ok registry"
  shows "\<exists>registry'. fold_in registry key hash hashError p fsize = Inr registry'"
proof (cases "map_of registry key")
  case None
  then show ?thesis
    by (simp add: fold_in_def Let_def map_store_def)
next
  case (Some existing)
  then have "Albums existing \<noteq> None"
    using registry_ok_lookup [OF assms Some] by simp
  with Some show ?thesis
    by (auto simp: fold_in_def Let_def map_store_def)
qed

lemma hash_media_failed: "hash_media env path hash = (hashed, True) \<Longrightarrow> hashed = []"
  by (auto simp: hash_media_def split: if_splits option.splits)

lemma registry_step_ok:
  assumes "registry_step env p (registry, cache) = Inr (registry', cache')"
    and "registry_ok registry"
  shows "registry_ok registry'"
proof (cases "StatFile env (MediaPath p)")
  case None
  with assms show ?thesis by (simp add: registry_step_def)
next
  case (Some info)
  obtain fsize mtime where info: "info = (fsize, mtime)" by (cases info)
  obtain hashed hashErr where
    hm: "hash_media env (MediaPath p) (consult_cache cache (MediaPath p) fsize mtime) = (hashed, hashErr)"
    by (cases "hash_media env (MediaPath p) (consult_cache cache (MediaPath p) fsize mtime)")
  from assms(1) have
    "fold_in registry (if hashErr then ''nohash:'' @ MediaPath p else hashed)
       (if hashErr then [] else hashed) hashErr p fsize = Inr registry'"
    unfolding registry_step_def Some info
    by (cases hashErr) (simp_all add: hm Let_def split: sum.splits)
  then show ?thesis
    using assms(2) hash_media_failed [of env "MediaPath p" _ hashed] hm
    by (intro fold_in_ok [of registry _ _ hashErr p fsize registry']) auto
qed

lemma registry_loop_ok:
  assumes "registry_loop env pairs (registry, cache) = Inr (registry', cache')"
    and "registry_ok registry"
  shows "registry_ok registry'"
  using assms
proof (induction pairs arbitrary: registry cache)
  case Nil
  then show ?case by simp
next
  case (Cons p ps)
  from Cons.prems(1) obtain r1 c1 where step: "registry_step env p (registry, cache) = Inr (r1, c1)"
    and rest: "registry_loop env ps (r1, c1) = Inr (registry', cache')"
    by (auto split: sum.splits)
  from registry_step_ok [OF step Cons.prems(2)] have "registry_ok r1" .
  with rest show ?case by (rule Cons.IH)
qed

lemma BuildRegistry_hash_failed_empty:
  assumes "BuildRegistry env pairs cachePath = Inr (registry, cache)"
    and "(key, photo) \<in> set registry" and "HashError photo"
  shows "Hash photo = []"
proof -
  have "registry_ok []" by (simp add: registry_ok_def)
  with assms(1) have "registry_ok registry"
    unfolding BuildRegistry_def Let_def by (rule registry_loop_ok)
  with assms(2,3) show ?thesis
    unfolding registry_ok_def by blast
qed

text \<open>With a cache whose map is not nil the loop never panics.\<close>

lemma registry_step_usable:
  assumes "Files cache \<noteq> None" and "registry_ok registry"
  shows "\<exists>registry' cache'. registry_step env p (registry, cache) = Inr (registry', cache') \<and>
           Files cache' \<noteq> None"
proof (cases "StatFile env (MediaPath p)")
  case None
  with assms show ?thesis by (simp add: registry_step_def)
next
  case (Some info)
  obtain fsize mtime where info: "info = (fsize, mtime)" by (cases info)
  obtain hashed hashErr where
    hm: "hash_media env (MediaPath p) (consult_cache cache (MediaPath p) fsize mtime) = (hashed, hashErr)"
    by (cases "hash_media env (MediaPath p) (consult_cache cache (MediaPath p) fsize mtime)")
  obtain files where files:
    "record_hash cache (MediaPath p) fsize mtime (if hashErr then [] else hashed) hashErr = Inr files"
    "files \<noteq> None"
    using record_hash_usable [OF assms(1)] by blast
  obtain registry' where folded:
    "fold_in registry (if hashErr then ''nohash:'' @ MediaPath p else hashed)
       (if hashErr then [] else hashed) hashErr p fsize = Inr registry'"
    using fold_in_usable [OF assms(2)] by blast
  have "registry_step env p (registry, cache) = Inr (registry', cache\<lparr>Files := files\<rparr>)"
    unfolding registry_step_def Some info
    by (simp add: hm Let_def files(1) folded)
  with files(2) show ?thesis by simp
qed

lemma registry_loop_usable:
  assumes "Files cache \<noteq> None" and "registry_ok registry"
  shows "\<exists>result. registry_loop env pairs (registry, cache) = Inr result"
  using assms
proof (induction pairs arbitrary: registry cache)
  case Nil
  then show ?case by simp
next
  case (Cons p ps)
  from registry_step_usable [OF Cons.prems]
  obtain r1 c1 where step: "registry_step env p (registry, cache) = Inr (r1, c1)"
    and usable: "Files c1 \<noteq> None"
    by blast
  from registry_step_ok [OF step Cons.prems(2)] have "registry_ok r1" .
  with usable have "\<exists>result. registry_loop env ps (r1, c1) = Inr result"
    by (rule Cons.IH)
  with step show ?case by simp
qed

lemma LoadHashCache_absent:
  assumes "cachePath = [] \<or> ReadFile env cachePath = Inl ErrNotExist"
  shows "LoadHashCache env cachePath = (\<lparr>Files = Some []\<rparr>, None)"
  using assms by (auto simp: LoadHashCache_def IsNotExist_def)

lemma BuildRegistry_absent_cache:
  assumes "cachePath = [] \<or> ReadFile env cachePath = Inl ErrNotExist"
  shows "\<exists>result. BuildRegistry env pairs cachePath = Inr result"
  unfolding BuildRegistry_def Let_def LoadHashCache_absent [OF assms]
  by (intro registry_loop_usable) (simp_all add: registry_ok_def)

text \<open>
  Claim C9 fails on the code. A cache file that is missing gives an empty cache and the
  build goes through (lemma \<open>BuildRegistry_absent_cache\<close>). A cache file that exists but
  cannot be read, or that does not hold JSON, makes \<^const>\<open>LoadHashCache\<close> return a cache
  whose map is nil together with an error; \<^const>\<open>BuildRegistry\<close> drops the error, and the
  first file that is hashed is recorded in the nil map, which panics.
\<close>

theorem BuildRegistry_unreadable_cache_panics:
  "LoadHashCache env_cache_absent ''/t/.gphotos/hash_cache.json'' = (\<lparr>Files = Some []\<rparr>, None) \<and>
   LoadHashCache env_cache_unreadable ''/t/.gphotos/hash_cache.json'' =
     (\<lparr>Files = None\<rparr>, Some (ReadFailed (ErrOther ''permission denied''))) \<and>
   LoadHashCache env_cache_corrupt ''/t/.gphotos/hash_cache.json'' = (\<lparr>Files = None\<rparr>, Some BadJSON) \<and>
   BuildRegistry env_cache_unreadable [pair_a] ''/t/.gphotos/hash_cache.json'' =
     Inl NilMapAssignment \<and>
   BuildRegistry env_cache_corrupt [pair_a] ''/t/.gphotos/hash_cache.json'' =
     Inl NilMapAssignment \<and>
   BuildRegistry env_cache_absent [pair_a] ''/t/.gphotos/hash_cache.json'' =
     Inr ([(''9f86d081884c7d65'',
            \<lparr>Hash = ''9f86d081884c7d65'', HashError = False, SrcPath = ''/t/Trip/a.jpg'',
             JsonPath = [], Albums = Some [(''Trip'', True)], FinalAlbum = [],
             DateAccuracy = 0, Size = 5\<rparr>)],
          \<lparr>Files = Some [(''/t/Trip/a.jpg'',
             \<lparr>entry_Size = 5, entry_MtimeNs = 1568871537000000000,
              entry_Hash = ''9f86d081884c7d65''\<rparr>)]\<rparr>)"
proof -
  have l1: "LoadHashCache env_cache_absent ''/t/.gphotos/hash_cache.json'' =
      (\<lparr>Files = Some []\<rparr>, None)"
    by (simp add: LoadHashCache_def env_cache_absent_def IsNotExist_def)
  have l2: "LoadHashCache env_cache_unreadable ''/t/.gphotos/hash_cache.json'' =
      (\<lparr>Files = None\<rparr>, Some (ReadFailed (ErrOther ''permission denied'')))"
    by (simp add: LoadHashCache_def env_cache_unreadable_def env_cache_absent_def IsNotExist_def)
  have l3: "LoadHashCache env_cache_corrupt ''/t/.gphotos/hash_cache.json'' =
      (\<lparr>Files = None\<rparr>, Some BadJSON)"
    by (simp add: LoadHashCache_def env_cache_corrupt_def env_cache_absent_def)
  have b2: "BuildRegistry env_cache_unreadable [pair_a] ''/t/.gphotos/hash_cache.json'' =
      Inl NilMapAssignment"
    unfolding BuildRegistry_def l2
    by (simp add: registry_step_def consult_cache_def hash_media_def record_hash_def fold_in_def
        env_cache_unreadable_def env_cache_absent_def pair_a_def map_lookup_def map_store_def Let_def)
  have b3: "BuildRegistry env_cache_corrupt [pair_a] ''/t/.gphotos/hash_cache.json'' =
      Inl NilMapAssignment"
    unfolding BuildRegistry_def l3
    by (simp add: registry_step_def consult_cache_def hash_media_def record_hash_def fold_in_def
        env_cache_corrupt_def env_cache_absent_def pair_a_def map_lookup_def map_store_def Let_def)
  have b1: "BuildRegistry env_cache_absent [pair_a] ''/t/.gphotos/hash_cache.json'' =
     Inr ([(''9f86d081884c7d65'',
            \<lparr>Hash = ''9f86d081884c7d65'', HashError = False, SrcPath = ''/t/Trip/a.jpg'',
             JsonPath = [], Albums = Some [(''Trip'', True)], FinalAlbum = [],
             DateAccuracy = 0, Size = 5\<rparr>)],
          \<lparr>Files = Some [(''/t/Trip/a.jpg'',
             \<lparr>entry_Size = 5, entry_MtimeNs = 1568871537000000000,
              entry_Hash = ''9f86d081884c7d65''\<rparr>)]\<rparr>)"
    unfolding BuildRegistry_def l1
    by (simp add: registry_step_def consult_cache_def hash_media_def record_hash_def fold_in_def
        env_cache_absent_def pair_a_def map_lookup_def map_store_def Let_def)
  show ?thesis using l1 l2 l3 b1 b2 b3 by simp
qed

text \<open>
  Claim C10. For an empty content hash \<^const>\<open>uniquePath\<close> has no hash-suffix step: when
  the original name exists it goes straight to the numbered names and returns the first
  free one, so its result is the original name or a numbered name, never a hash-suffixed
  one. Every record that \<^const>\<open>BuildRegistry\<close> flags as hash-failed has an empty hash, so
  this is how the destination of a hash-failed photo is resolved.
\<close>

theorem uniquePath_empty_hash_numbered:
  "(\<forall>k. Stat (Join dir filename) = None \<and> 1 \<le> k \<and> k \<le> 9999 \<and>
        (\<forall>j. 1 \<le> j \<and> j < k \<longrightarrow> Stat (numbered_path dir filename j) = None) \<and>
        Stat (numbered_path dir filename k) = Some ErrNotExist \<longrightarrow>
      uniquePath Stat dir filename [] = Inr (numbered_path dir filename k)) \<and>
   (\<forall>p. uniquePath Stat dir filename [] = Inr p \<longrightarrow>
      p = Join dir filename \<or> (\<exists>k. 1 \<le> k \<and> k \<le> 9999 \<and> p = numbered_path dir filename k)) \<and>
   (\<forall>registry cache key photo.
      BuildRegistry env pairs cachePath = Inr (registry, cache) \<and>
      (key, photo) \<in> set registry \<and> HashError photo \<longrightarrow> Hash photo = [])"
proof (intro conjI allI impI)
  fix k
  assume "Stat (Join dir filename) = None \<and> 1 \<le> k \<and> k \<le> 9999 \<and>
        (\<forall>j. 1 \<le> j \<and> j < k \<longrightarrow> Stat (numbered_path dir filename j) = None) \<and>
        Stat (numbered_path dir filename k) = Some ErrNotExist"
  then show "uniquePath Stat dir filename [] = Inr (numbered_path dir filename k)"
    by (intro uniquePath_numbered) simp_all
next
  fix p
  assume "uniquePath Stat dir filename [] = Inr p"
  from uniquePath_result [OF this]
  show "p = Join dir filename \<or> (\<exists>k. 1 \<le> k \<and> k \<le> 9999 \<and> p = numbered_path dir filename k)"
    by blast
next
  fix registry cache key photo
  assume "BuildRegistry env pairs cachePath = Inr (registry, cache) \<and>
      (key, photo) \<in> set registry \<and> HashError photo"
  then show "Hash photo = []"
    using BuildRegistry_hash_failed_empty by blast
qed

theorem uniquePath_empty_hash_numbered_witness:
  "BuildRegistry env_hash_fails [pair_a] [] =
     Inr ([(''nohash:/t/Trip/a.jpg'', failed_photo)], \<lparr>Files = Some []\<rparr>) \<and>
   HashError failed_photo \<and> Hash failed_photo = [] \<and>
   one_file_tree (Join ''out/Library'' ''a.jpg'') = None \<and>
   one_file_tree (numbered_path ''out/Library'' ''a.jpg'' 1) = Some ErrNotExist \<and>
   uniquePath one_file_tree ''out/Library'' ''a.jpg'' (Hash failed_photo) = Inr ''out/Library/a-1.jpg''"
proof -
  note c10 = uniquePath_empty_hash_numbered
    [of one_file_tree "''out/Library''" "''a.jpg''" env_hash_fails "[pair_a]" "[]"]
  have built: "BuildRegistry env_hash_fails [pair_a] [] =
      Inr ([(''nohash:/t/Trip/a.jpg'', failed_photo)], \<lparr>Files = Some []\<rparr>)"
    by (simp add: BuildRegistry_def LoadHashCache_def registry_step_def consult_cache_def
        hash_media_def record_hash_def fold_in_def env_hash_fails_def env_cache_absent_def
        pair_a_def failed_photo_def map_lookup_def map_store_def Let_def)
  have flagged: "HashError failed_photo"
    by (simp add: failed_photo_def)
  have empty: "Hash failed_photo = []"
    using c10 built flagged by (metis list.set_intros(1))
  have o0: "one_file_tree (Join ''out/Library'' ''a.jpg'') = None"
    by (simp add: one_file_tree_def written_def example_paths)
  have o1: "one_file_tree (numbered_path ''out/Library'' ''a.jpg'' 1) = Some ErrNotExist"
    by (simp add: one_file_tree_def written_def empty_tree_def example_paths)
  have "\<forall>j::nat. 1 \<le> j \<and> j < 1 \<longrightarrow>
      one_file_tree (numbered_path ''out/Library'' ''a.jpg'' j) = None"
    by simp
  then have "uniquePath one_file_tree ''out/Library'' ''a.jpg'' [] =
      Inr (numbered_path ''out/Library'' ''a.jpg'' 1)"
    using c10 o0 o1 by (metis le_refl one_le_numeral)
  then show ?thesis
    using built flagged empty o0 o1 by (simp add: example_paths)
qed

section \<open>Properties of the scanner\<close>

text \<open>\<^const>\<open>detectAlbum\<close> by the number of segments of the relative path.\<close>

lemma detectAlbum_segments:
  "Rel root path = Some rel \<Longrightarrow> Split rel = [f] \<Longrightarrow> detectAlbum root path = []"
  "Rel root path = Some rel \<Longrightarrow> Split rel = [d, f] \<Longrightarrow>
     detectAlbum root path = (if HasPrefix d ''Photos from'' then [] else d)"
  "Rel root path = Some rel \<Longrightarrow> Split rel = d # a # f # rest \<Longrightarrow>
     detectAlbum root path =
       (if d = ''Google Photos'' then (if HasPrefix a ''Photos from'' then [] else a)
        else if HasPrefix d ''Photos from'' then [] else d)"
  by (simp_all add: detectAlbum_def Let_def)

lemmas path_eval =
  Rel_def Clean_def clean_step_def path_elems_def HasPrefix_def Let_def

text \<open>
  The relative path does not depend on how the root is written: the walk hands over
  cleaned paths below a root that may be given as \<^verbatim>\<open>./Takeout\<close> or with a separator at
  its end.
\<close>

lemma Rel_unclean_root:
  "Rel ''./Takeout'' ''Takeout/Trip/x.jpg'' = Some ''Trip/x.jpg''"
  "Rel ''/t/'' ''/t/Trip/x.jpg'' = Some ''Trip/x.jpg''"
  "Rel ''.'' ''Trip/x.jpg'' = Some ''Trip/x.jpg''"
  "Rel ''/t'' ''/t'' = Some ''.''"
  "Rel ''/t/a'' ''/t/b/x.jpg'' = Some ''../b/x.jpg''"
  "Rel ''/t'' ''t/x.jpg'' = None"
  by (simp_all add: path_eval)

lemma detectAlbum_unclean_root:
  "detectAlbum ''./Takeout'' ''Takeout/Trip/x.jpg'' = ''Trip''"
  "detectAlbum ''/t/'' ''/t/Trip/x.jpg'' = ''Trip''"
  "detectAlbum ''./Takeout'' ''Takeout/Google Photos/x.jpg'' = ''Google Photos''"
  by (simp_all add: detectAlbum_def path_eval)

text \<open>
  Claim C7 fails on the code. A file that lies directly in the wrapper directory
  \<^verbatim>\<open>Google Photos\<close> is given the album \<^verbatim>\<open>Google Photos\<close>, not the empty album: the wrapper
  is recognised only when a further directory follows it, and otherwise the general rule
  takes the first segment. The other cases are as the claim has them.
\<close>

theorem detectAlbum_wrapper_only:
  "detectAlbum ''/t'' ''/t/Google Photos/x.jpg'' = ''Google Photos'' \<and>
   detectAlbum ''/t'' ''/t/x.jpg'' = [] \<and>
   detectAlbum ''/t'' ''/t/Trip/x.jpg'' = ''Trip'' \<and>
   detectAlbum ''/t'' ''/t/Photos from 2019/x.jpg'' = [] \<and>
   detectAlbum ''/t'' ''/t/Google Photos/Trip/x.jpg'' = ''Trip'' \<and>
   detectAlbum ''/t'' ''/t/Google Photos/Photos from 2019/x.jpg'' = []"
  by (simp add: detectAlbum_def path_eval)

lemma prefix_loop_step:
  "prefix_loop env ext baseNoExt (entry # entries) st =
     prefix_loop env ext baseNoExt entries
       (if qualifies env ext baseNoExt entry \<and> (fst st = [] \<or> length (title_base env ext entry) < snd st)
        then (Path entry, length (title_base env ext entry)) else st)"
  by (simp add: qualifies_def title_base_def Let_def)

lemma best_of_step:
  assumes inv: "best_of env ext baseNoExt seen st"
    and paths: "\<forall>e \<in> set seen. Path e \<noteq> []"
  shows "best_of env ext baseNoExt (seen @ [entry])
     (if qualifies env ext baseNoExt entry \<and> (fst st = [] \<or> length (title_base env ext entry) < snd st)
      then (Path entry, length (title_base env ext entry)) else st)"
proof (cases "qualifies env ext baseNoExt entry")
  case False
  with inv show ?thesis by (simp add: best_of_def)
next
  case q: True
  show ?thesis
  proof (cases "filter (qualifies env ext baseNoExt) seen = []")
    case True
    with inv have "st = ([], 0)" by (simp add: best_of_def)
    with q True show ?thesis by (simp add: best_of_def)
  next
    case False
    with inv obtain e where e: "e \<in> set (filter (qualifies env ext baseNoExt) seen)"
      "st = (Path e, length (title_base env ext e))"
      "\<forall>e' \<in> set (filter (qualifies env ext baseNoExt) seen).
         length (title_base env ext e) \<le> length (title_base env ext e')"
      by (auto simp: best_of_def)
    from e(1) paths have "Path e \<noteq> []" by simp
    with e(2) have nonempty: "fst st \<noteq> []" by simp
    show ?thesis
    proof (cases "length (title_base env ext entry) < snd st")
      case True
      with e(2,3) have "\<forall>e' \<in> set (filter (qualifies env ext baseNoExt) seen).
          length (title_base env ext entry) \<le> length (title_base env ext e')"
        by fastforce
      with q True show ?thesis by (simp add: best_of_def)
    next
      case False
      with e(2) have "length (title_base env ext e) \<le> length (title_base env ext entry)" by simp
      with q False nonempty e show ?thesis
        unfolding best_of_def by (auto intro!: bexI [of _ e])
    qed
  qed
qed

lemma prefix_loop_best_of:
  assumes "best_of env ext baseNoExt seen st"
    and "\<forall>e \<in> set (seen @ entries). Path e \<noteq> []"
  shows "best_of env ext baseNoExt (seen @ entries) (prefix_loop env ext baseNoExt entries st)"
  using assms
proof (induction entries arbitrary: seen st)
  case Nil
  then show ?case by simp
next
  case (Cons entry entries)
  let ?st = "if qualifies env ext baseNoExt entry \<and> (fst st = [] \<or> length (title_base env ext entry) < snd st)
     then (Path entry, length (title_base env ext entry)) else st"
  have "best_of env ext baseNoExt (seen @ [entry]) ?st"
    using Cons.prems by (intro best_of_step) simp_all
  moreover have "\<forall>e \<in> set ((seen @ [entry]) @ entries). Path e \<noteq> []"
    using Cons.prems(2) by simp
  ultimately have "best_of env ext baseNoExt ((seen @ [entry]) @ entries)
      (prefix_loop env ext baseNoExt entries ?st)"
    by (rule Cons.IH)
  then show ?case
    by (simp only: prefix_loop_step append_assoc append_Cons append_Nil)
qed

lemma pickPrefixCandidate_loop:
  "pickPrefixCandidate env mediaPath jsonByDir =
     fst (prefix_loop env (media_ext env mediaPath) (media_stem env mediaPath)
            (same_dir_entries mediaPath jsonByDir) ([], 0))"
  by (cases "same_dir_entries mediaPath jsonByDir")
    (simp_all add: pickPrefixCandidate_def media_ext_def media_stem_def same_dir_entries_def Let_def)

text \<open>
  Claim C8, as amended. \<^const>\<open>pickPrefixCandidate\<close> looks at the sidecars of the directory
  of the media file whose lower-cased title ends with the lower-cased extension of the
  media file and whose title without that extension has the lower-cased base name of the
  media file as a prefix (the media name is the prefix of the title, not the other way
  round). It returns the path of one whose title is the shortest, and the empty string
  when there is none.
\<close>

theorem pickPrefixCandidate_shortest_title:
  assumes "\<forall>e \<in> set (same_dir_entries mediaPath jsonByDir). Path e \<noteq> []"
  shows "(candidates env mediaPath jsonByDir = [] \<longrightarrow> pickPrefixCandidate env mediaPath jsonByDir = []) \<and>
         (candidates env mediaPath jsonByDir \<noteq> [] \<longrightarrow>
            (\<exists>e \<in> set (candidates env mediaPath jsonByDir).
               pickPrefixCandidate env mediaPath jsonByDir = Path e \<and>
               (\<forall>e' \<in> set (candidates env mediaPath jsonByDir).
                  length (title_base env (media_ext env mediaPath) e) \<le>
                  length (title_base env (media_ext env mediaPath) e'))))"
proof -
  have "best_of env (media_ext env mediaPath) (media_stem env mediaPath) [] ([], 0)"
    by (simp add: best_of_def)
  then have "best_of env (media_ext env mediaPath) (media_stem env mediaPath)
      ([] @ same_dir_entries mediaPath jsonByDir)
      (prefix_loop env (media_ext env mediaPath) (media_stem env mediaPath)
         (same_dir_entries mediaPath jsonByDir) ([], 0))"
    using assms by (intro prefix_loop_best_of) simp_all
  then show ?thesis
    unfolding best_of_def pickPrefixCandidate_loop candidates_def
    by auto
qed

lemmas scanner_eval =
  media_ext_def media_stem_def same_dir_entries_def index_slice_def Base_def Ext_def Dir_def
  stripExt_def TrimSuffix_def HasSuffix_def HasPrefix_def ascii_env_def lower_char_def Clean_def clean_step_def
  qualifies_def title_base_def entry_img_12_def entry_img_1234_def entry_img_12345_def
  trip_sidecars_def

theorem pickPrefixCandidate_shortest_title_witness:
  "map Path (same_dir_entries ''/t/Trip/IMG_12.jpg'' trip_sidecars) =
     [''/t/Trip/IMG_12345.jpg.json'', ''/t/Trip/IMG_1234.jpg.json''] \<and>
   candidates ascii_env ''/t/Trip/IMG_12.jpg'' trip_sidecars = [entry_img_12345, entry_img_1234] \<and>
   pickPrefixCandidate ascii_env ''/t/Trip/IMG_12.jpg'' trip_sidecars = ''/t/Trip/IMG_1234.jpg.json''"
proof -
  have paths: "\<forall>e \<in> set (same_dir_entries ''/t/Trip/IMG_12.jpg'' trip_sidecars). Path e \<noteq> []"
    by (simp add: scanner_eval)
  have cands: "candidates ascii_env ''/t/Trip/IMG_12.jpg'' trip_sidecars = [entry_img_12345, entry_img_1234]"
    by (simp add: candidates_def scanner_eval)
  have len5: "length (title_base ascii_env (media_ext ascii_env ''/t/Trip/IMG_12.jpg'') entry_img_12345) = 9"
    by (simp add: scanner_eval)
  have len4: "length (title_base ascii_env (media_ext ascii_env ''/t/Trip/IMG_12.jpg'') entry_img_1234) = 8"
    by (simp add: scanner_eval)
  from pickPrefixCandidate_shortest_title [OF paths, where env = ascii_env]
  obtain e where e: "e \<in> set [entry_img_12345, entry_img_1234]"
    "pickPrefixCandidate ascii_env ''/t/Trip/IMG_12.jpg'' trip_sidecars = Path e"
    "\<forall>e' \<in> set [entry_img_12345, entry_img_1234].
       length (title_base ascii_env (media_ext ascii_env ''/t/Trip/IMG_12.jpg'') e) \<le>
       length (title_base ascii_env (media_ext ascii_env ''/t/Trip/IMG_12.jpg'') e')"
    unfolding cands by auto
  from e(3) len4 have "length (title_base ascii_env (media_ext ascii_env ''/t/Trip/IMG_12.jpg'') e) \<le> 8"
    by simp
  with e(1) len5 have "e = entry_img_1234" by auto
  with e(2) have "pickPrefixCandidate ascii_env ''/t/Trip/IMG_12.jpg'' trip_sidecars = ''/t/Trip/IMG_1234.jpg.json''"
    by (simp add: entry_img_1234_def)
  moreover have "map Path (same_dir_entries ''/t/Trip/IMG_12.jpg'' trip_sidecars) =
      [''/t/Trip/IMG_12345.jpg.json'', ''/t/Trip/IMG_1234.jpg.json'']"
    by (simp add: scanner_eval)
  ultimately show ?thesis using cands by simp
qed

text \<open>
  The claim as it was stated has the prefix relation the other way round. The sidecar
  titled \<^verbatim>\<open>IMG_12.jpg\<close> stands in the stated relation to the media file \<^verbatim>\<open>IMG_1234.jpg\<close>
  of the same directory (its name without the extension is a prefix of the media base
  name), and it is the only sidecar there, yet no match is returned.
\<close>

theorem pickPrefixCandidate_stated_relation_counterexample:
  "same_dir_entries ''/t/Trip/IMG_1234.jpg'' [(''/t/Trip'', [entry_img_12])] = [entry_img_12] \<and>
   spec_qualifies ascii_env (media_ext ascii_env ''/t/Trip/IMG_1234.jpg'') (media_stem ascii_env ''/t/Trip/IMG_1234.jpg'')
     entry_img_12 \<and>
   pickPrefixCandidate ascii_env ''/t/Trip/IMG_1234.jpg'' [(''/t/Trip'', [entry_img_12])] = []"
proof -
  have "same_dir_entries ''/t/Trip/IMG_1234.jpg'' [(''/t/Trip'', [entry_img_12])] = [entry_img_12]"
    by (simp add: scanner_eval)
  moreover have "spec_qualifies ascii_env (media_ext ascii_env ''/t/Trip/IMG_1234.jpg'')
      (media_stem ascii_env ''/t/Trip/IMG_1234.jpg'') entry_img_12"
    by (simp add: spec_qualifies_def scanner_eval)
  moreover have "pickPrefixCandidate ascii_env ''/t/Trip/IMG_1234.jpg'' [(''/t/Trip'', [entry_img_12])] = []"
    by (simp add: pickPrefixCandidate_loop prefix_loop_step scanner_eval)
  ultimately show ?thesis by simp
qed

section \<open>Properties of grouping and merging\<close>

lemmas dedup_eval =
  MergeIdentical_def GroupIdentical_def size_groups_def size_step_def hash_groups_def
  hash_step_def append_at_def merge_group_def chooseBest_def sort_Slice_def insertion_sort_def
  less_photo_def add_albums_def album_keys_def bytes_key_def nohash_key_def dec_int_def
  dec_nat.simps digit_char_def env_cache_absent_def Let_def

text \<open>
  Claim C5 fails on the code, in both of its parts. The comparison of \<^verbatim>\<open>chooseBest\<close> falls
  through to the path lengths whenever the first record does not have the strictly better
  tier, so a record with a worse tier and a shorter path counts as less: of a dated
  record and an undated copy with a shorter path, the undated copy becomes the
  representative. And the representative's album map is replaced by an empty one before
  the loop over the group reads it, so the representative's own memberships are not part
  of the union: the merged record below has the album of the other record only.
\<close>

theorem chooseBest_worse_tier_albums_lost:
  "DateAccuracy dup_dated < DateAccuracy dup_undated \<and>
   chooseBest env_cache_absent [dup_dated, dup_undated] =
     Inr (dup_undated, [dup_undated, dup_dated]) \<and>
   MergeIdentical env_cache_absent [dup_dated, dup_undated] =
     Inr [dup_undated\<lparr>Albums := Some [(''Trip'', True)]\<rparr>] \<and>
   MergeIdentical env_cache_absent [dup_undated, dup_dated] =
     Inr [dup_dated\<lparr>Albums := Some [(''Beach'', True)]\<rparr>]"
proof -
  have tier: "DateAccuracy dup_dated < DateAccuracy dup_undated"
    by (simp add: dup_dated_def dup_undated_def)
  have best: "chooseBest env_cache_absent [dup_dated, dup_undated] =
      Inr (dup_undated, [dup_undated, dup_dated])"
    by (simp add: dedup_eval dup_dated_def dup_undated_def)
  have m1: "MergeIdentical env_cache_absent [dup_dated, dup_undated] =
      Inr [dup_undated\<lparr>Albums := Some [(''Trip'', True)]\<rparr>]"
    by (simp add: dedup_eval dup_dated_def dup_undated_def)
  have m2: "MergeIdentical env_cache_absent [dup_undated, dup_dated] =
      Inr [dup_dated\<lparr>Albums := Some [(''Beach'', True)]\<rparr>]"
    by (simp add: dedup_eval dup_dated_def dup_undated_def)
  show ?thesis using tier best m1 m2 by simp
qed

subsection \<open>Maps of slices\<close>







subsection \<open>The size groups\<close>




subsection \<open>The hash groups of one size\<close>




subsection \<open>The final groups\<close>











subsection \<open>Sorting and merging\<close>








subsection \<open>Unique hashes after the merge\<close>






end
